theory Spec2Isabelle
  imports Main "HOL-Library.Sublist" "HOL-Library.AList"
begin

section \<open>Python values and the operations the scripts use on them\<close>

text \<open>
  The three scripts work on the value returned by \<^verbatim>\<open>json.loads\<close>: a dict with string
  keys, a list, a str, an int, a float, a bool or None. A dict is an association list
  (key order is the insertion order Python keeps); it is read with \<open>map_of\<close> and written
  with \<open>AList.update\<close>, which overwrites the entry in place as a dict assignment does.
  A key occurs once in a dict; in a list that repeats a key the first entry is the one
  read and written. A float is a mantissa and a binary exponent: only whether it is
  zero matters here (truthiness), and the values NaN and Infinity, which are not JSON,
  are left out. A str is the list of its characters; the separators the scripts look
  for (slash, question mark, the extensions) are ASCII.
\<close>

datatype json =
    JNull
  | JBool bool
  | JInt int
  | JFloat int int
  | JStr string
  | JArr "json list"
  | JObj "(string \<times> json) list"

datatype py_error = TypeError | AttributeError | KeyError

definition bindE :: "'e + 'a \<Rightarrow> ('a \<Rightarrow> 'e + 'b) \<Rightarrow> 'e + 'b" where
  "bindE m f = (case m of Inl e \<Rightarrow> Inl e | Inr x \<Rightarrow> f x)"

text \<open>\<^verbatim>\<open>sub in s\<close> on two strs: substring containment.\<close>

fun py_in_str :: "string \<Rightarrow> string \<Rightarrow> bool" where
  "py_in_str sub [] = (sub = [])"
| "py_in_str sub (c # cs) = (prefix sub (c # cs) \<or> py_in_str sub cs)"

text \<open>
  \<^verbatim>\<open>key in v\<close> for a str \<open>key\<close>: key membership on a dict, element equality on a list,
  substring containment on a str, TypeError on everything else.
\<close>

definition py_contains :: "string \<Rightarrow> json \<Rightarrow> py_error + bool" where
  "py_contains key v =
     (case v of
        JObj kvs \<Rightarrow> Inr (map_of kvs key \<noteq> None)
      | JArr xs \<Rightarrow> Inr (JStr key \<in> set xs)
      | JStr s \<Rightarrow> Inr (py_in_str key s)
      | _ \<Rightarrow> Inl TypeError)"

text \<open>\<^verbatim>\<open>v[key]\<close> for a str \<open>key\<close>: only a dict can be subscripted by a str.\<close>

definition py_getitem :: "json \<Rightarrow> string \<Rightarrow> py_error + json" where
  "py_getitem v key =
     (case v of
        JObj kvs \<Rightarrow> (case map_of kvs key of None \<Rightarrow> Inl KeyError | Some x \<Rightarrow> Inr x)
      | _ \<Rightarrow> Inl TypeError)"

text \<open>\<^verbatim>\<open>v[key] = x\<close> for a str \<open>key\<close>.\<close>

definition py_setitem :: "json \<Rightarrow> string \<Rightarrow> json \<Rightarrow> py_error + json" where
  "py_setitem v key x =
     (case v of
        JObj kvs \<Rightarrow> Inr (JObj (AList.update key x kvs))
      | _ \<Rightarrow> Inl TypeError)"

text \<open>\<^verbatim>\<open>len(v)\<close>.\<close>

definition py_len :: "json \<Rightarrow> py_error + nat" where
  "py_len v =
     (case v of
        JArr xs \<Rightarrow> Inr (length xs)
      | JObj kvs \<Rightarrow> Inr (length kvs)
      | JStr s \<Rightarrow> Inr (length s)
      | _ \<Rightarrow> Inl TypeError)"

text \<open>
  What \<^verbatim>\<open>for x in v\<close> runs over: the elements of a list, the keys of a dict, the
  one-character strs of a str; TypeError on everything else.
\<close>

definition py_iter :: "json \<Rightarrow> py_error + json list" where
  "py_iter v =
     (case v of
        JArr xs \<Rightarrow> Inr xs
      | JObj kvs \<Rightarrow> Inr (map (\<lambda>kv. JStr (fst kv)) kvs)
      | JStr s \<Rightarrow> Inr (map (\<lambda>c. JStr [c]) s)
      | _ \<Rightarrow> Inl TypeError)"

text \<open>\<^verbatim>\<open>s.split(c)\<close> for a one-character separator: never the empty list.\<close>

fun split_on :: "char \<Rightarrow> string \<Rightarrow> string list" where
  "split_on c [] = [[]]"
| "split_on c (x # xs) =
     (if x = c then [] # split_on c xs
      else (case split_on c xs of [] \<Rightarrow> [[x]] | p # ps \<Rightarrow> (x # p) # ps))"

text \<open>\<^verbatim>\<open>v.split(c)\<close> on a value: only a str has the method.\<close>

definition py_split :: "json \<Rightarrow> char \<Rightarrow> py_error + string list" where
  "py_split v c = (case v of JStr s \<Rightarrow> Inr (split_on c s) | _ \<Rightarrow> Inl AttributeError)"

section \<open>Path Normalizer (clean\_json\_image\_paths.py)\<close>

text \<open>
  The body of the loop of \<^verbatim>\<open>clean_image_paths_in_json\<close> for one item: the item after
  the step, and whether \<^verbatim>\<open>modified_count\<close> was incremented.
\<close>

definition clean_item :: "json \<Rightarrow> py_error + (json \<times> bool)" where
  "clean_item item =
     (case item of
        JObj kvs \<Rightarrow>
          (case map_of kvs ''data'' of
             None \<Rightarrow> Inr (item, False)
           | Some d \<Rightarrow>
               bindE (py_contains ''image'' d) (\<lambda>has_image.
               if \<not> has_image then Inr (item, False)
               else
                 bindE (py_getitem d ''image'') (\<lambda>image_url.
                 bindE (py_contains ''/'' image_url) (\<lambda>has_slash.
                 if \<not> has_slash then Inr (item, False)
                 else
                   bindE (py_split image_url (CHR ''/'')) (\<lambda>parts.
                   let filename = last parts;
                       filename = (if py_in_str ''?'' filename
                                   then hd (split_on (CHR ''?'') filename)
                                   else filename)
                   in bindE (py_setitem d ''image'' (JStr filename)) (\<lambda>d'.
                      Inr (JObj (AList.update ''data'' d' kvs), True)))))))
      | _ \<Rightarrow> Inr (item, False))"

text \<open>The loop over the items, threading \<^verbatim>\<open>modified_count\<close>.\<close>

fun clean_items :: "json list \<Rightarrow> nat \<Rightarrow> py_error + (json list \<times> nat)" where
  "clean_items [] modified_count = Inr ([], modified_count)"
| "clean_items (item # items) modified_count =
     bindE (clean_item item) (\<lambda>(item', modified).
     bindE (clean_items items (if modified then modified_count + 1 else modified_count))
       (\<lambda>(items', n). Inr (item' # items', n)))"

text \<open>
  The body of the \<^verbatim>\<open>try\<close> block after parsing: \<^verbatim>\<open>len(data)\<close> (for the message), then
  the loop over \<^verbatim>\<open>enumerate(data)\<close>. The loop mutates the dicts that are elements of a
  list; over a dict it runs on the keys and over a str on its characters, which are
  strs, so \<open>data\<close> itself stays as it is.
\<close>

definition clean_data :: "json \<Rightarrow> py_error + (json \<times> nat)" where
  "clean_data data =
     bindE (py_len data) (\<lambda>_.
     bindE (py_iter data) (\<lambda>items.
     bindE (clean_items items 0) (\<lambda>(items', n).
       Inr ((case data of JArr _ \<Rightarrow> JArr items' | _ \<Rightarrow> data), n))))"

text \<open>
  What one call leaves behind: the re-serialised document and the count, the raw text
  rewritten by the regular expression, or an exception that no handler catches (the
  handler is \<^verbatim>\<open>except (json.JSONDecodeError, TypeError)\<close>).
\<close>

datatype clean_result =
    StructuredResult string nat
  | RawBytesResult string
  | Uncaught py_error

text \<open>
  The pattern and the replacement of the fallback, character for character (a string
  literal cannot hold a backslash, so it is spliced in):
  \<^verbatim>\<open>"image"\s*:\s*"[^"]*\/([^"\/\?]+\.(?:jpg|jpeg|png))(?:\?[^"]*)?"\<close>
\<close>

definition bs :: string where
  "bs = [CHR 0x5C]"

definition image_pattern :: string where
  \<open>image_pattern =
     ''"image"'' @ bs @ ''s*:'' @ bs @ ''s*"[^"]*'' @ bs @ ''/([^"'' @ bs @ ''/'' @ bs @ ''?]+''
     @ bs @ ''.(?:jpg|jpeg|png))(?:'' @ bs @ ''?[^"]*)?"''\<close>

definition image_replacement :: string where
  \<open>image_replacement = ''"image": "'' @ bs @ ''1"''\<close>

text \<open>
  \<^verbatim>\<open>json.loads\<close> (None: JSONDecodeError), \<^verbatim>\<open>json.dump\<close> with its indent and \<^verbatim>\<open>re.sub\<close>
  belong to Python's library and are parameters.
\<close>

definition clean_image_paths_in_json ::
  "(string \<Rightarrow> json option) \<Rightarrow> (json \<Rightarrow> nat \<Rightarrow> string) \<Rightarrow>
   (string \<Rightarrow> string \<Rightarrow> string \<Rightarrow> string) \<Rightarrow> string \<Rightarrow> clean_result" where
  "clean_image_paths_in_json loads dumps re_sub json_content =
     (case loads json_content of
        None \<Rightarrow> RawBytesResult (re_sub image_pattern image_replacement json_content)
      | Some data \<Rightarrow>
          (case clean_data data of
             Inr (data', modified_count) \<Rightarrow> StructuredResult (dumps data' 4) modified_count
           | Inl TypeError \<Rightarrow>
               RawBytesResult (re_sub image_pattern image_replacement json_content)
           | Inl e \<Rightarrow> Uncaught e))"

text \<open>The value of \<^verbatim>\<open>item['data']['image']\<close> when both dicts and both keys are there.\<close>

definition data_image :: "json \<Rightarrow> json option" where
  "data_image item =
     (case item of
        JObj kvs \<Rightarrow>
          (case map_of kvs ''data'' of Some (JObj d) \<Rightarrow> map_of d ''image'' | _ \<Rightarrow> None)
      | _ \<Rightarrow> None)"

section \<open>Image Locator (find\_and\_copy\_images.py)\<close>

text \<open>
  \<^verbatim>\<open>s.lower()\<close> on the ASCII letters. Outside ASCII, Python lowers two characters to an
  ASCII letter (the Kelvin sign to k, the dotted capital I to i followed by a combining
  dot); neither letter occurs in the three extensions.
\<close>

definition lower_char :: "char \<Rightarrow> char" where
  "lower_char c =
     (case map_of (zip ''ABCDEFGHIJKLMNOPQRSTUVWXYZ'' ''abcdefghijklmnopqrstuvwxyz'') c of
        None \<Rightarrow> c
      | Some l \<Rightarrow> l)"

definition py_lower :: "string \<Rightarrow> string" where
  "py_lower s = map lower_char s"

definition image_exts :: "string list" where
  "image_exts = [''.jpg'', ''.jpeg'', ''.png'']"

text \<open>\<^verbatim>\<open>s.endswith(t)\<close> for a tuple \<open>t\<close> of suffixes.\<close>

definition py_endswith :: "string \<Rightarrow> string list \<Rightarrow> bool" where
  "py_endswith s sufs = list_ex (\<lambda>suf. prefix (rev suf) (rev s)) sufs"

text \<open>
  The body of the loop of \<^verbatim>\<open>extract_image_names_from_json\<close> for one item: the name
  appended to \<^verbatim>\<open>image_names\<close>, if any. The test on the name is
  \<^verbatim>\<open>any(ext in filename.lower() for ext in ['.jpg', '.jpeg', '.png'])\<close>.
\<close>

definition extract_name :: "json \<Rightarrow> py_error + string option" where
  "extract_name item =
     (case item of
        JObj kvs \<Rightarrow>
          (case map_of kvs ''data'' of
             None \<Rightarrow> Inr None
           | Some d \<Rightarrow>
               bindE (py_contains ''image'' d) (\<lambda>has_image.
               if \<not> has_image then Inr None
               else
                 bindE (py_getitem d ''image'') (\<lambda>image_url.
                 bindE (py_split image_url (CHR ''/'')) (\<lambda>parts.
                 if parts \<noteq> [] then
                   let filename = hd (split_on (CHR ''?'') (last parts))
                   in if list_ex (\<lambda>ext. py_in_str ext (py_lower filename)) image_exts
                      then Inr (Some filename)
                      else Inr None
                 else Inr None))))
      | _ \<Rightarrow> Inr None)"

fun extract_names :: "json list \<Rightarrow> string list \<Rightarrow> py_error + string list" where
  "extract_names [] image_names = Inr image_names"
| "extract_names (item # items) image_names =
     bindE (extract_name item) (\<lambda>r.
       extract_names items (case r of None \<Rightarrow> image_names | Some filename \<Rightarrow> image_names @ [filename]))"

definition extract_data :: "json \<Rightarrow> py_error + string list" where
  "extract_data data =
     bindE (py_len data) (\<lambda>_.
     bindE (py_iter data) (\<lambda>items. extract_names items []))"

text \<open>
  \<^verbatim>\<open>json.loads\<close> and \<^verbatim>\<open>re.findall\<close> are parameters; the handler catches
  JSONDecodeError and TypeError and nothing else.
\<close>

definition extract_image_names_from_json ::
  "(string \<Rightarrow> json option) \<Rightarrow> (string \<Rightarrow> string \<Rightarrow> string list) \<Rightarrow> string \<Rightarrow>
   py_error + string list" where
  "extract_image_names_from_json loads re_findall json_content =
     (case loads json_content of
        None \<Rightarrow> Inr (re_findall image_pattern json_content)
      | Some data \<Rightarrow>
          (case extract_data data of
             Inr image_names \<Rightarrow> Inr image_names
           | Inl TypeError \<Rightarrow> Inr (re_findall image_pattern json_content)
           | Inl e \<Rightarrow> Inl e))"

text \<open>\<^verbatim>\<open>os.path.join(a, b)\<close> (POSIX) for two components.\<close>

definition path_join :: "string \<Rightarrow> string \<Rightarrow> string" where
  "path_join a b =
     (if prefix ''/'' b then b
      else if a = [] \<or> py_endswith a [''/''] then a @ b
      else a @ ''/'' @ b)"

text \<open>
  The state of the walk: the set \<^verbatim>\<open>found_images\<close>, the lines printed for the copies
  (\<^verbatim>\<open>Copied: file\<close>, or \<^verbatim>\<open>Error copying file: e\<close> with the exception's text), and the
  file system, of a type the model does not look into.
\<close>

datatype event = Copied string | ErrorCopying string string

record 'fs search_state =
  found_images :: "string set"
  printed :: "event list"
  fs :: 'fs

text \<open>
  The loop \<^verbatim>\<open>for image_name in image_names\<close> for one file, with its \<^verbatim>\<open>break\<close>.
  \<open>copy2\<close> is \<^verbatim>\<open>shutil.copy2\<close>: the exception it raised, if any (all of them are caught
  by \<^verbatim>\<open>except Exception\<close>), and the file system it leaves.
\<close>

fun scan_names ::
  "('fs \<Rightarrow> string \<Rightarrow> string \<Rightarrow> string option \<times> 'fs) \<Rightarrow> string \<Rightarrow> string \<Rightarrow> string \<Rightarrow>
   string list \<Rightarrow> 'fs search_state \<Rightarrow> 'fs search_state" where
  "scan_names copy2 target_dir root file [] st = st"
| "scan_names copy2 target_dir root file (image_name # rest) st =
     (if py_in_str image_name file then
        (let source_path = path_join root file;
             target_path = path_join target_dir file
         in case copy2 (fs st) source_path target_path of
              (None, fs') \<Rightarrow>
                st\<lparr>found_images := insert image_name (found_images st),
                   printed := printed st @ [Copied file],
                   fs := fs'\<rparr>
            | (Some e, fs') \<Rightarrow>
                st\<lparr>printed := printed st @ [ErrorCopying file e], fs := fs'\<rparr>)
      else scan_names copy2 target_dir root file rest st)"

definition process_file ::
  "('fs \<Rightarrow> string \<Rightarrow> string \<Rightarrow> string option \<times> 'fs) \<Rightarrow> string \<Rightarrow> string list \<Rightarrow> string \<Rightarrow>
   'fs search_state \<Rightarrow> string \<Rightarrow> 'fs search_state" where
  "process_file copy2 target_dir image_names root st file =
     (if py_endswith (py_lower file) image_exts
      then scan_names copy2 target_dir root file image_names st
      else st)"




section \<open>Annotation Extractor (streamlit\_app.py)\<close>

definition IMAGE_PREFIX :: string where
  "IMAGE_PREFIX =
     ''https://graffity-public-assets.s3.ap-southeast-1.amazonaws.com/ronn-temp/label_images/''"

text \<open>The four locals of the loop body, and the dict appended to \<^verbatim>\<open>annotation_data\<close>.\<close>

record labels =
  image_quality :: string
  pizza_quality :: string
  pizza_quality_reason :: string
  comments :: json

record flat_record = labels +
  image :: string
  image_filename :: json

definition default_labels :: labels where
  "default_labels =
     \<lparr>image_quality = ''N/A'', pizza_quality = ''N/A'', pizza_quality_reason = ''N/A'',
      comments = JStr ''N/A''\<rparr>"

text \<open>The truth value of \<^verbatim>\<open>if v:\<close>.\<close>

definition py_truthy :: "json \<Rightarrow> bool" where
  "py_truthy v =
     (case v of
        JNull \<Rightarrow> False
      | JBool b \<Rightarrow> b
      | JInt n \<Rightarrow> n \<noteq> 0
      | JFloat m e \<Rightarrow> m \<noteq> 0
      | JStr s \<Rightarrow> s \<noteq> []
      | JArr xs \<Rightarrow> xs \<noteq> []
      | JObj kvs \<Rightarrow> kvs \<noteq> [])"

text \<open>
  \<^verbatim>\<open>sep.join(v)\<close>: \<open>v\<close> is iterated, and every element has to be a str.
\<close>

fun strs_of :: "json list \<Rightarrow> py_error + string list" where
  "strs_of [] = Inr []"
| "strs_of (JStr s # xs) = bindE (strs_of xs) (\<lambda>ss. Inr (s # ss))"
| "strs_of (_ # xs) = Inl TypeError"

fun join_strs :: "string \<Rightarrow> string list \<Rightarrow> string" where
  "join_strs sep [] = []"
| "join_strs sep [s] = s"
| "join_strs sep (s # t # ts) = s @ sep @ join_strs sep (t # ts)"

definition py_join :: "string \<Rightarrow> json \<Rightarrow> py_error + string" where
  "py_join sep v = bindE (py_iter v) (\<lambda>xs. bindE (strs_of xs) (\<lambda>ss. Inr (join_strs sep ss)))"

text \<open>
  The text an f-string puts for a value: a str as it is; for the other values Python's
  \<^verbatim>\<open>str\<close>, which is the parameter \<open>repr\<close>.
\<close>

definition py_format :: "(json \<Rightarrow> string) \<Rightarrow> json \<Rightarrow> string" where
  "py_format repr v = (case v of JStr s \<Rightarrow> s | _ \<Rightarrow> repr v)"

text \<open>
  One condition of the \<^verbatim>\<open>if\<close>/\<^verbatim>\<open>elif\<close> chain:
  \<^verbatim>\<open>from_name == tag and 'value' in result and key in result['value']\<close>, for a dict
  \<open>result\<close>, evaluated from left to right.
\<close>

definition tag_has :: "json \<Rightarrow> (string \<times> json) list \<Rightarrow> string \<Rightarrow> string \<Rightarrow> py_error + bool" where
  "tag_has from_name result tag key =
     (if from_name \<noteq> JStr tag then Inr False
      else (case map_of result ''value'' of
              None \<Rightarrow> Inr False
            | Some v \<Rightarrow> py_contains key v))"

text \<open>\<^verbatim>\<open>result['value'][key]\<close>.\<close>

definition value_at :: "(string \<times> json) list \<Rightarrow> string \<Rightarrow> py_error + json" where
  "value_at result key = bindE (py_getitem (JObj result) ''value'') (\<lambda>v. py_getitem v key)"

text \<open>The body of the innermost loop; \<^verbatim>\<open>result.get\<close> needs a dict.\<close>

definition process_result :: "labels \<Rightarrow> json \<Rightarrow> py_error + labels" where
  "process_result lab result =
     (case result of
        JObj r \<Rightarrow>
          (let from_name = (case map_of r ''from_name'' of None \<Rightarrow> JStr [] | Some f \<Rightarrow> f)
           in
             bindE (tag_has from_name r ''image_quality'' ''choices'') (\<lambda>c1.
             if c1 then
               bindE (value_at r ''choices'') (\<lambda>ch.
               bindE (py_join '', '' ch) (\<lambda>s. Inr (lab\<lparr>image_quality := s\<rparr>)))
             else
             bindE (tag_has from_name r ''pizza_quality'' ''choices'') (\<lambda>c2.
             if c2 then
               bindE (value_at r ''choices'') (\<lambda>ch.
               bindE (py_join '', '' ch) (\<lambda>s. Inr (lab\<lparr>pizza_quality := s\<rparr>)))
             else
             bindE (tag_has from_name r ''pizza_quality_reason'' ''choices'') (\<lambda>c3.
             if c3 then
               bindE (value_at r ''choices'') (\<lambda>ch.
               bindE (py_join '', '' ch) (\<lambda>s. Inr (lab\<lparr>pizza_quality_reason := s\<rparr>)))
             else
             bindE (tag_has from_name r ''comments'' ''text'') (\<lambda>c4.
             if c4 then
               bindE (value_at r ''text'') (\<lambda>t. Inr (lab\<lparr>comments := t\<rparr>))
             else Inr lab)))))
      | _ \<Rightarrow> Inl AttributeError)"

fun process_results :: "labels \<Rightarrow> json list \<Rightarrow> py_error + labels" where
  "process_results lab [] = Inr lab"
| "process_results lab (result # results) =
     bindE (process_result lab result) (\<lambda>lab'. process_results lab' results)"

definition process_annotation :: "labels \<Rightarrow> json \<Rightarrow> py_error + labels" where
  "process_annotation lab annotation =
     bindE (py_contains ''result'' annotation) (\<lambda>has_result.
     if has_result then
       bindE (py_getitem annotation ''result'') (\<lambda>res.
       bindE (py_iter res) (\<lambda>results. process_results lab results))
     else Inr lab)"

fun process_annotations :: "labels \<Rightarrow> json list \<Rightarrow> py_error + labels" where
  "process_annotations lab [] = Inr lab"
| "process_annotations lab (annotation # annotations) =
     bindE (process_annotation lab annotation) (\<lambda>lab'. process_annotations lab' annotations)"

text \<open>
  The body of the loop of \<^verbatim>\<open>extract_annotation_data\<close> for one item: the dict appended,
  if any. \<^verbatim>\<open>image_path\<close> is None or the pair of the stored value and the formatted
  path.
\<close>

definition extract_item :: "(json \<Rightarrow> string) \<Rightarrow> json \<Rightarrow> py_error + flat_record option" where
  "extract_item repr item =
     (case item of
        JObj kvs \<Rightarrow>
          (case (map_of kvs ''data'', map_of kvs ''annotations'') of
             (Some d, Some annotations) \<Rightarrow>
               bindE (py_contains ''image'' d) (\<lambda>has_image.
               bindE (if has_image
                      then bindE (py_getitem d ''image'') (\<lambda>filename.
                             Inr (Some (filename,
                                        IMAGE_PREFIX @ py_format repr filename)))
                      else Inr None) (\<lambda>image_path.
               bindE (if py_truthy annotations
                      then bindE (py_iter annotations) (process_annotations default_labels)
                      else Inr default_labels) (\<lambda>lab.
               case image_path of
                 None \<Rightarrow> Inr None
               | Some (filename, path) \<Rightarrow>
                   if path \<noteq> [] then
                     Inr (Some \<lparr>image_quality = image_quality lab,
                                pizza_quality = pizza_quality lab,
                                pizza_quality_reason = pizza_quality_reason lab,
                                comments = comments lab,
                                image = path,
                                image_filename = filename\<rparr>)
                   else Inr None)))
           | _ \<Rightarrow> Inr None)
      | _ \<Rightarrow> Inr None)"

fun extract_items :: "(json \<Rightarrow> string) \<Rightarrow> json list \<Rightarrow> py_error + flat_record list" where
  "extract_items repr [] = Inr []"
| "extract_items repr (item # items) =
     bindE (extract_item repr item) (\<lambda>r.
     bindE (extract_items repr items) (\<lambda>rs.
       Inr (case r of None \<Rightarrow> rs | Some flat \<Rightarrow> flat # rs)))"

definition extract_annotation_data :: "(json \<Rightarrow> string) \<Rightarrow> json \<Rightarrow> py_error + flat_record list" where
  "extract_annotation_data repr data = bindE (py_iter data) (extract_items repr)"

section \<open>Notions used to state the properties of the locator\<close>



section \<open>Notions used to state the properties of the extractor\<close>

text \<open>
  The condition under which a record is kept, as the specification words it: a mapping
  with the keys \<^verbatim>\<open>data\<close> and \<^verbatim>\<open>annotations\<close> whose \<^verbatim>\<open>data\<close> mapping has the key \<^verbatim>\<open>image\<close>.
\<close>

definition included :: "json \<Rightarrow> bool" where
  "included item =
     (case item of
        JObj kvs \<Rightarrow>
          (case (map_of kvs ''data'', map_of kvs ''annotations'') of
             (Some (JObj d), Some _) \<Rightarrow> map_of d ''image'' \<noteq> None
           | _ \<Rightarrow> False)
      | _ \<Rightarrow> False)"

text \<open>The four tags, and the output field that belongs to a tag, as a value.\<close>

definition recognized :: "string list" where
  "recognized = [''image_quality'', ''pizza_quality'', ''pizza_quality_reason'', ''comments'']"

definition field_of :: "string \<Rightarrow> 'a labels_scheme \<Rightarrow> json" where
  "field_of tag lab =
     (if tag = ''image_quality'' then JStr (image_quality lab)
      else if tag = ''pizza_quality'' then JStr (pizza_quality lab)
      else if tag = ''pizza_quality_reason'' then JStr (pizza_quality_reason lab)
      else comments lab)"

text \<open>\<^verbatim>\<open>result.get('from_name', '')\<close> of a result item that is a dict.\<close>

definition from_name_of :: "json \<Rightarrow> json" where
  "from_name_of result =
     (case result of
        JObj r \<Rightarrow> (case map_of r ''from_name'' of None \<Rightarrow> JStr [] | Some f \<Rightarrow> f)
      | _ \<Rightarrow> JNull)"

text \<open>
  The value a well-formed result item with the given tag carries: its text for
  \<^verbatim>\<open>comments\<close>, its choices (a list of strs) joined by a comma and a space otherwise.
\<close>

definition item_value :: "string \<Rightarrow> json \<Rightarrow> json option" where
  "item_value tag result =
     (if from_name_of result \<noteq> JStr tag then None
      else case result of
        JObj r \<Rightarrow>
          (case map_of r ''value'' of
             Some (JObj v) \<Rightarrow>
               if tag = ''comments'' then map_of v ''text''
               else (case map_of v ''choices'' of
                       Some (JArr xs) \<Rightarrow>
                         (case strs_of xs of
                            Inr ss \<Rightarrow> Some (JStr (join_strs '', '' ss))
                          | Inl _ \<Rightarrow> None)
                     | _ \<Rightarrow> None)
           | _ \<Rightarrow> None)
      | _ \<Rightarrow> None)"

text \<open>The result items of an annotation, in order.\<close>

definition results_in :: "json \<Rightarrow> json list" where
  "results_in annotation =
     (case annotation of
        JObj a \<Rightarrow> (case map_of a ''result'' of Some (JArr rs) \<Rightarrow> rs | _ \<Rightarrow> [])
      | _ \<Rightarrow> [])"

text \<open>
  Input that has the shape of the data model: \<^verbatim>\<open>data\<close> is a mapping, \<^verbatim>\<open>annotations\<close> a
  list of mappings, each \<^verbatim>\<open>result\<close> a list of mappings, each \<^verbatim>\<open>value\<close> a mapping and
  \<^verbatim>\<open>choices\<close> a list of strs; every key may be missing.
\<close>

definition is_str :: "json \<Rightarrow> bool" where
  "is_str v = (case v of JStr _ \<Rightarrow> True | _ \<Rightarrow> False)"

definition conforming_result :: "json \<Rightarrow> bool" where
  "conforming_result result =
     (case result of
        JObj r \<Rightarrow>
          (case map_of r ''value'' of
             None \<Rightarrow> True
           | Some (JObj v) \<Rightarrow>
               (case map_of v ''choices'' of
                  None \<Rightarrow> True
                | Some (JArr xs) \<Rightarrow> list_all is_str xs
                | Some _ \<Rightarrow> False)
           | Some _ \<Rightarrow> False)
      | _ \<Rightarrow> False)"

definition conforming_annotation :: "json \<Rightarrow> bool" where
  "conforming_annotation annotation =
     (case annotation of
        JObj a \<Rightarrow>
          (case map_of a ''result'' of
             None \<Rightarrow> True
           | Some (JArr rs) \<Rightarrow> list_all conforming_result rs
           | Some _ \<Rightarrow> False)
      | _ \<Rightarrow> False)"

definition conforming_item :: "json \<Rightarrow> bool" where
  "conforming_item item =
     (case item of
        JObj kvs \<Rightarrow>
          (case (map_of kvs ''data'', map_of kvs ''annotations'') of
             (Some d, Some a) \<Rightarrow>
               (case d of JObj _ \<Rightarrow> True | _ \<Rightarrow> False)
               \<and> (case a of JArr anns \<Rightarrow> list_all conforming_annotation anns | _ \<Rightarrow> False)
           | _ \<Rightarrow> True)
      | _ \<Rightarrow> True)"

section \<open>Basic facts\<close>

lemma bindE_Inl [simp]: "bindE (Inl e) f = Inl e"
  by (simp add: bindE_def)

lemma bindE_Inr [simp]: "bindE (Inr x) f = f x"
  by (simp add: bindE_def)

lemma bindE_eq_Inr:
  "bindE m f = Inr y \<longleftrightarrow> (\<exists>x. m = Inr x \<and> f x = Inr y)"
  by (cases m) simp_all

lemma py_in_str_single: "py_in_str [c] s \<longleftrightarrow> c \<in> set s"
  by (induction s) auto

lemma split_on_nonempty: "split_on c s \<noteq> []"
  by (induction s) (auto split: list.splits)

lemma hd_split_on: "hd (split_on c s) = takeWhile (\<lambda>x. x \<noteq> c) s"
  by (induction s) (auto simp: split_on_nonempty split: list.splits)

lemma last_split_on: "last (split_on c s) = rev (takeWhile (\<lambda>x. x \<noteq> c) (rev s))"
proof (induction s)
  case Nil
  then show ?case by simp
next
  case (Cons x xs)
  obtain p ps where sp: "split_on c xs = p # ps"
    using split_on_nonempty [of c xs] by (cases "split_on c xs") auto
  show ?case
  proof (cases "x = c")
    case True
    then show ?thesis
      using Cons sp by (simp add: takeWhile_append)
  next
    case False
    show ?thesis
    proof (cases "c \<in> set xs")
      case True
      then have "tl (split_on c xs) \<noteq> []"
        by (induction xs) (auto simp: split_on_nonempty split: list.splits)
      then have "ps \<noteq> []"
        using sp by simp
      with True False Cons sp show ?thesis
        by (auto simp: takeWhile_append)
    next
      case nin: False
      then have "split_on c xs = [xs]"
        by (induction xs) auto
      with nin False show ?thesis
        by (simp add: takeWhile_append)
    qed
  qed
qed

lemma last_segment_decomp:
  assumes "c \<in> set s"
  shows "\<exists>pre. s = pre @ [c] @ last (split_on c s)" and "c \<notin> set (last (split_on c s))"
proof -
  let ?P = "\<lambda>x. x \<noteq> c"
  have d: "dropWhile ?P (rev s) \<noteq> []"
    using assms by (simp add: dropWhile_eq_Nil_conv)
  then have h: "hd (dropWhile ?P (rev s)) = c"
    using hd_dropWhile [of ?P "rev s"] by simp
  have "rev s = takeWhile ?P (rev s) @ hd (dropWhile ?P (rev s)) # tl (dropWhile ?P (rev s))"
    using d by simp
  then have "rev s = takeWhile ?P (rev s) @ c # tl (dropWhile ?P (rev s))"
    using h by simp
  then have "rev (rev s) = rev (takeWhile ?P (rev s) @ c # tl (dropWhile ?P (rev s)))"
    by simp
  then have "s = rev (tl (dropWhile ?P (rev s))) @ [c] @ rev (takeWhile ?P (rev s))"
    by simp
  then show "\<exists>pre. s = pre @ [c] @ last (split_on c s)"
    unfolding last_split_on by blast
  show "c \<notin> set (last (split_on c s))"
    unfolding last_split_on using set_takeWhileD [of c ?P "rev s"] by auto
qed

lemma strip_query:
  "(if CHR ''?'' \<in> set f then hd (split_on (CHR ''?'') f) else f)
     = takeWhile (\<lambda>c. c \<noteq> CHR ''?'') f"
proof (cases "CHR ''?'' \<in> set f")
  case True
  then show ?thesis by (simp add: hd_split_on)
next
  case False
  have "takeWhile (\<lambda>c. c \<noteq> CHR ''?'') f = f"
    by (rule takeWhile_eq_all_conv [THEN iffD2]) (use False in auto)
  with False show ?thesis by (simp del: takeWhile_eq_all_conv)
qed

lemma data_imageD:
  assumes "data_image item = Some v"
  obtains kvs d where "item = JObj kvs" "map_of kvs ''data'' = Some (JObj d)"
    "map_of d ''image'' = Some v"
  using assms by (auto simp: data_image_def split: json.splits option.splits)

lemma data_image_update:
  "data_image (JObj (AList.update ''data'' (JObj (AList.update ''image'' v d)) kvs)) = Some v"
  by (simp add: data_image_def update_conv')

section \<open>Path Normalizer: the rewritten value\<close>

lemma clean_item_slash:
  assumes "map_of kvs ''data'' = Some (JObj d)" "map_of d ''image'' = Some (JStr s)"
    "CHR ''/'' \<in> set s"
  shows "clean_item (JObj kvs) =
     Inr (JObj (AList.update ''data'' (JObj (AList.update ''image''
        (JStr (takeWhile (\<lambda>c. c \<noteq> CHR ''?'') (last (split_on (CHR ''/'') s)))) d)) kvs), True)"
  using assms
  by (simp add: clean_item_def py_contains_def py_getitem_def py_split_def py_setitem_def
      py_in_str_single strip_query Let_def del: py_in_str.simps)

lemma clean_item_example:
  "clean_item (JObj [(''data'', JObj [(''image'', JStr ''http://x/y/name.png?token=abc'')])])
     = Inr (JObj [(''data'', JObj [(''image'', JStr ''name.png'')])], True)"
  by (simp add: clean_item_slash)

text \<open>
  What the loop body does to a str image value \<open>s\<close> that contains a slash: \<open>s\<close> is cut
  after its last slash, and the new value is the rest up to its first question mark.
\<close>

lemma clean_item_after_last_slash:
  assumes "data_image item = Some (JStr s)" and "CHR ''/'' \<in> set s"
  shows "\<exists>item' pre seg.
            clean_item item = Inr (item', True)
          \<and> s = pre @ ''/'' @ seg \<and> CHR ''/'' \<notin> set seg
          \<and> data_image item' = Some (JStr (takeWhile (\<lambda>c. c \<noteq> CHR ''?'') seg))"
proof -
  from assms(1) obtain kvs d where i: "item = JObj kvs" "map_of kvs ''data'' = Some (JObj d)"
      "map_of d ''image'' = Some (JStr s)"
    by (rule data_imageD)
  from last_segment_decomp [OF assms(2)] obtain pre where
    s: "s = pre @ ''/'' @ last (split_on (CHR ''/'') s)" and
    n: "CHR ''/'' \<notin> set (last (split_on (CHR ''/'') s))"
    by blast
  show ?thesis
    using clean_item_slash [OF i(2,3) assms(2)] s n i(1) data_image_update by blast
qed

lemma clean_data_example:
  "clean_data
     (JArr [JObj [(''data'', JObj [(''image'', JStr ''http://x/y/name.png?token=abc'')])]])
   = Inr (JArr [JObj [(''data'', JObj [(''image'', JStr ''name.png'')])]], 1)"
  by (simp add: clean_data_def py_len_def py_iter_def clean_item_example)

lemma clean_item_query_with_slash:
  "clean_item (JObj [(''data'', JObj [(''image'', JStr ''http://x/y/name.png?token=a/b'')])])
     = Inr (JObj [(''data'', JObj [(''image'', JStr ''b'')])], True)"
  by (simp add: clean_item_slash)

text \<open>
  C5. The loop body splits the value on the slash first and strips the query from the
  last part afterwards (\<^verbatim>\<open>parts[-1]\<close>, "the last part which should be the filename"),
  so a slash inside the query string takes part in the split. For the document
  \<^verbatim>\<open>[{"data": {"image": "http://x/y/name.png?token=a/b"}}]\<close> the value written is
  \<^verbatim>\<open>b\<close>, a piece of the query string, and it is counted as one modification. The final
  path segment with the query removed is \<^verbatim>\<open>name.png\<close> (the value cut at its question
  mark, then after its last slash), which is also what the pattern of the fallback
  captures in that text.
\<close>

theorem normalizer_takes_piece_of_query:
  \<open>clean_image_paths_in_json
     [''[{"data": {"image": "http://x/y/name.png?token=a/b"}}]'' \<mapsto>
        JArr [JObj [(''data'', JObj [(''image'', JStr ''http://x/y/name.png?token=a/b'')])]]]
     dumps re_sub ''[{"data": {"image": "http://x/y/name.png?token=a/b"}}]''
     = StructuredResult (dumps (JArr [JObj [(''data'', JObj [(''image'', JStr ''b'')])]]) 4) 1
   \<and> last (split_on (CHR ''/'') (hd (split_on (CHR ''?'') ''http://x/y/name.png?token=a/b'')))
     = ''name.png''\<close>
  by (simp add: clean_image_paths_in_json_def clean_data_def py_len_def py_iter_def
      clean_item_query_with_slash)

lemma py_getitem_Inr:
  "py_getitem d k = Inr v \<longleftrightarrow> (\<exists>kvs. d = JObj kvs \<and> map_of kvs k = Some v)"
  by (cases d) (auto simp: py_getitem_def split: option.splits)

lemma py_split_Inr:
  "py_split v c = Inr p \<longleftrightarrow> (\<exists>s. v = JStr s \<and> p = split_on c s)"
  by (cases v) (auto simp: py_split_def)

lemma clean_item_JObj:
  assumes "map_of kvs ''data'' = Some d"
  shows "clean_item (JObj kvs) =
        bindE (py_contains ''image'' d) (\<lambda>has_image.
          if \<not> has_image then Inr (JObj kvs, False)
          else bindE (py_getitem d ''image'') (\<lambda>image_url.
               bindE (py_contains ''/'' image_url) (\<lambda>has_slash.
                 if \<not> has_slash then Inr (JObj kvs, False)
                 else bindE (py_split image_url (CHR ''/'')) (\<lambda>parts.
                   let filename = last parts;
                       filename = (if py_in_str ''?'' filename
                                   then hd (split_on (CHR ''?'') filename)
                                   else filename)
                   in bindE (py_setitem d ''image'' (JStr filename)) (\<lambda>d'.
                      Inr (JObj (AList.update ''data'' d' kvs), True))))))"
  using assms by (simp add: clean_item_def)

lemma clean_item_cases_JObj:
  assumes "clean_item (JObj kvs) = Inr (x', b)"
  shows "(x' = JObj kvs \<and> \<not> b) \<or>
         (\<exists>d s. map_of kvs ''data'' = Some (JObj d)
            \<and> map_of d ''image'' = Some (JStr s) \<and> CHR ''/'' \<in> set s)"
proof (cases "map_of kvs ''data''")
  case None
  with assms show ?thesis by (auto simp: clean_item_def)
next
  case (Some d)
  note ci = clean_item_JObj [OF Some]
  from assms obtain h where h: "py_contains ''image'' d = Inr h"
    by (auto simp: ci bindE_eq_Inr)
  show ?thesis
  proof (cases h)
    case False
    with assms h show ?thesis by (auto simp: ci)
  next
    case True
    with assms h obtain v where v: "py_getitem d ''image'' = Inr v"
      by (auto simp: ci bindE_eq_Inr)
    with assms h True obtain sl where sl: "py_contains ''/'' v = Inr sl"
      by (auto simp: ci bindE_eq_Inr)
    show ?thesis
    proof (cases sl)
      case False
      with assms h True v sl show ?thesis by (auto simp: ci)
    next
      case slT: True
      with assms h True v sl obtain p where "py_split v (CHR ''/'') = Inr p"
        by (auto simp: ci bindE_eq_Inr)
      then obtain s where s: "v = JStr s"
        by (auto simp: py_split_Inr)
      from v obtain dk where dk: "d = JObj dk" "map_of dk ''image'' = Some v"
        by (auto simp: py_getitem_Inr)
      from sl slT s have "CHR ''/'' \<in> set s"
        by (simp add: py_contains_def py_in_str_single del: py_in_str.simps)
      with Some dk s show ?thesis by blast
    qed
  qed
qed

lemma clean_item_cases:
  assumes "clean_item x = Inr (x', b)"
  shows "(x' = x \<and> \<not> b) \<or>
         (\<exists>kvs d s. x = JObj kvs \<and> map_of kvs ''data'' = Some (JObj d)
            \<and> map_of d ''image'' = Some (JStr s) \<and> CHR ''/'' \<in> set s)"
proof (cases x)
  case (JObj kvs)
  with assms clean_item_cases_JObj [of kvs x' b] show ?thesis by blast
qed (use assms in \<open>auto simp: clean_item_def\<close>)

lemma clean_item_noslash:
  assumes "map_of kvs ''data'' = Some (JObj d)" "map_of d ''image'' = Some (JStr f)"
    "CHR ''/'' \<notin> set f"
  shows "clean_item (JObj kvs) = Inr (JObj kvs, False)"
  using assms
  by (simp add: clean_item_def py_contains_def py_getitem_def py_in_str_single
      del: py_in_str.simps)

lemma takeWhile_notin: "c \<notin> set xs \<Longrightarrow> c \<notin> set (takeWhile P xs)"
  by (meson set_takeWhileD)

lemma clean_item_idem:
  assumes "clean_item x = Inr (x', b)"
  shows "clean_item x' = Inr (x', False)"
proof -
  from clean_item_cases [OF assms] show ?thesis
  proof
    assume "x' = x \<and> \<not> b"
    with assms show ?thesis by simp
  next
    assume "\<exists>kvs d s. x = JObj kvs \<and> map_of kvs ''data'' = Some (JObj d)
            \<and> map_of d ''image'' = Some (JStr s) \<and> CHR ''/'' \<in> set s"
    then obtain kvs d s where x: "x = JObj kvs" and d: "map_of kvs ''data'' = Some (JObj d)"
      and i: "map_of d ''image'' = Some (JStr s)" and sl: "CHR ''/'' \<in> set s"
      by blast
    let ?f = "takeWhile (\<lambda>c. c \<noteq> CHR ''?'') (last (split_on (CHR ''/'') s))"
    let ?d' = "AList.update ''image'' (JStr ?f) d"
    let ?kvs' = "AList.update ''data'' (JObj ?d') kvs"
    have x': "x' = JObj ?kvs'"
      using assms clean_item_slash [OF d i sl] x by simp
    have nf: "CHR ''/'' \<notin> set ?f"
      using last_segment_decomp(2) [OF sl] by (rule takeWhile_notin)
    have "clean_item (JObj ?kvs') = Inr (JObj ?kvs', False)"
      by (rule clean_item_noslash [where d = ?d' and f = ?f]) (simp_all add: update_conv' nf)
    with x' show ?thesis by simp
  qed
qed

lemma clean_item_out_bare:
  assumes "clean_item x = Inr (x', b)" and "data_image x' = Some (JStr f)"
  shows "CHR ''/'' \<notin> set f"
proof
  assume sl: "CHR ''/'' \<in> set f"
  from assms(2) obtain kvs d where x': "x' = JObj kvs" "map_of kvs ''data'' = Some (JObj d)"
      "map_of d ''image'' = Some (JStr f)"
    by (rule data_imageD)
  have "clean_item x' = Inr (x', False)"
    using assms(1) by (rule clean_item_idem)
  then show False
    using clean_item_slash [OF x'(2,3) sl] x'(1) by simp
qed

lemma clean_items_length:
  "clean_items xs n = Inr (ys, m) \<Longrightarrow> length ys = length xs"
  by (induction xs arbitrary: n ys m) (auto simp: bindE_eq_Inr)

lemma clean_items_idem:
  "clean_items xs n = Inr (ys, m) \<Longrightarrow> clean_items ys k = Inr (ys, k)"
proof (induction xs arbitrary: n ys m k)
  case Nil
  then show ?case by simp
next
  case (Cons x xs)
  from Cons.prems obtain x' b ys' where
    x: "clean_item x = Inr (x', b)" and
    r: "clean_items xs (if b then n + 1 else n) = Inr (ys', m)" and
    ys: "ys = x' # ys'"
    by (auto simp: bindE_eq_Inr)
  show ?case
    using clean_item_idem [OF x] Cons.IH [OF r] ys by simp
qed

lemma clean_items_out_bare:
  "clean_items xs n = Inr (ys, m) \<Longrightarrow> r \<in> set ys \<Longrightarrow> data_image r = Some (JStr f)
     \<Longrightarrow> CHR ''/'' \<notin> set f"
proof (induction xs arbitrary: n ys m)
  case Nil
  then show ?case by simp
next
  case (Cons x xs)
  from Cons.prems(1) obtain x' b ys' where
    x: "clean_item x = Inr (x', b)" and
    rest: "clean_items xs (if b then n + 1 else n) = Inr (ys', m)" and
    ys: "ys = x' # ys'"
    by (auto simp: bindE_eq_Inr)
  from Cons.prems(2) ys have "r = x' \<or> r \<in> set ys'" by auto
  then show ?case
  proof
    assume "r = x'"
    with x Cons.prems(3) show ?thesis by (auto dest: clean_item_out_bare)
  next
    assume "r \<in> set ys'"
    with Cons.IH [OF rest] Cons.prems(3) show ?thesis by blast
  qed
qed

lemma clean_items_strs:
  "\<forall>x\<in>set xs. \<exists>s. x = JStr s \<Longrightarrow> clean_items xs n = Inr (xs, n)"
  by (induction xs arbitrary: n) (auto simp: clean_item_def)

lemma clean_data_JObj: "clean_data (JObj kvs) = Inr (JObj kvs, 0)"
  by (simp add: clean_data_def py_len_def py_iter_def clean_items_strs)

lemma clean_data_JStr: "clean_data (JStr s) = Inr (JStr s, 0)"
  by (simp add: clean_data_def py_len_def py_iter_def clean_items_strs)

lemma clean_data_JArr:
  "clean_data (JArr xs) = bindE (clean_items xs 0) (\<lambda>(ys, n). Inr (JArr ys, n))"
  by (simp add: clean_data_def py_len_def py_iter_def)

lemma clean_data_unsized:
  "clean_data JNull = Inl TypeError" "clean_data (JBool b) = Inl TypeError"
  "clean_data (JInt i) = Inl TypeError" "clean_data (JFloat m e) = Inl TypeError"
  by (simp_all add: clean_data_def py_len_def)

lemma clean_data_idem:
  assumes "clean_data d = Inr (d', n)"
  shows "clean_data d' = Inr (d', 0)"
proof (cases d)
  case (JArr xs)
  with assms obtain ys where ys: "clean_items xs 0 = Inr (ys, n)" and d': "d' = JArr ys"
    by (auto simp: clean_data_JArr bindE_eq_Inr)
  show ?thesis
    using clean_items_idem [OF ys, of 0] d' by (simp add: clean_data_JArr)
next
  case (JObj kvs)
  with assms show ?thesis by (auto simp: clean_data_JObj)
next
  case (JStr s)
  with assms show ?thesis by (auto simp: clean_data_JStr)
qed (use assms in \<open>simp_all add: clean_data_unsized\<close>)

section \<open>Path Normalizer: idempotence\<close>

text \<open>
  C8. When a document parses and the structured pass completes, it writes the
  re-serialised data and reports \<open>n\<close> modifications; run again on the document it
  wrote (which parses back to the data it was serialised from), it writes the same
  document and reports no modification. Every str image value of the written list is
  free of slashes, which is why the second pass leaves it alone.
\<close>

theorem normalizer_idempotent:
  assumes "loads content = Some data" and "clean_data data = Inr (data', n)"
    and "loads (dumps data' 4) = Some data'"
  shows "clean_image_paths_in_json loads dumps re_sub content = StructuredResult (dumps data' 4) n
       \<and> clean_image_paths_in_json loads dumps re_sub (dumps data' 4)
           = StructuredResult (dumps data' 4) 0
       \<and> (\<forall>records r f. data' = JArr records \<longrightarrow> r \<in> set records
             \<longrightarrow> data_image r = Some (JStr f) \<longrightarrow> CHR ''/'' \<notin> set f)"
proof (intro conjI allI impI)
  show "clean_image_paths_in_json loads dumps re_sub content = StructuredResult (dumps data' 4) n"
    using assms(1,2) by (simp add: clean_image_paths_in_json_def)
  show "clean_image_paths_in_json loads dumps re_sub (dumps data' 4)
           = StructuredResult (dumps data' 4) 0"
    using assms(3) clean_data_idem [OF assms(2)] by (simp add: clean_image_paths_in_json_def)
next
  fix records r f
  assume a: "data' = JArr records" "r \<in> set records" "data_image r = Some (JStr f)"
  from assms(2) a(1) obtain xs where "clean_items xs 0 = Inr (records, n)"
    by (cases data) (auto simp: clean_data_JArr clean_data_JObj clean_data_JStr clean_data_unsized bindE_eq_Inr)
  then show "CHR ''/'' \<notin> set f"
    using a(2,3) by (rule clean_items_out_bare)
qed


theorem normalizer_idempotent_witness:
  "[''in'' \<mapsto> JArr [JObj [(''data'', JObj [(''image'', JStr ''a/b.png'')])]],
    ''out'' \<mapsto> JArr [JObj [(''data'', JObj [(''image'', JStr ''b.png'')])]]] ''in''
     = Some (JArr [JObj [(''data'', JObj [(''image'', JStr ''a/b.png'')])]])
   \<and> clean_data (JArr [JObj [(''data'', JObj [(''image'', JStr ''a/b.png'')])]])
     = Inr (JArr [JObj [(''data'', JObj [(''image'', JStr ''b.png'')])]], 1)
   \<and> clean_image_paths_in_json
        [''in'' \<mapsto> JArr [JObj [(''data'', JObj [(''image'', JStr ''a/b.png'')])]],
         ''out'' \<mapsto> JArr [JObj [(''data'', JObj [(''image'', JStr ''b.png'')])]]]
        (\<lambda>d n. ''out'') (\<lambda>p r s. s) ''in'' = StructuredResult ''out'' 1
   \<and> clean_image_paths_in_json
        [''in'' \<mapsto> JArr [JObj [(''data'', JObj [(''image'', JStr ''a/b.png'')])]],
         ''out'' \<mapsto> JArr [JObj [(''data'', JObj [(''image'', JStr ''b.png'')])]]]
        (\<lambda>d n. ''out'') (\<lambda>p r s. s) ''out'' = StructuredResult ''out'' 0"
proof -
  let ?d = "JArr [JObj [(''data'', JObj [(''image'', JStr ''a/b.png'')])]]"
  let ?d' = "JArr [JObj [(''data'', JObj [(''image'', JStr ''b.png'')])]]"
  let ?loads = "[''in'' \<mapsto> ?d, ''out'' \<mapsto> ?d']"
  let ?dumps = "\<lambda>(d::json) (n::nat). ''out''"
  have h1: "?loads ''in'' = Some ?d"
    by simp
  have ci: "clean_item (JObj [(''data'', JObj [(''image'', JStr ''a/b.png'')])])
      = Inr (JObj [(''data'', JObj [(''image'', JStr ''b.png'')])], True)"
    by (simp add: clean_item_slash)
  have h2: "clean_data ?d = Inr (?d', 1)"
    by (simp add: clean_data_JArr ci)
  have h3: "?loads (?dumps ?d' 4) = Some ?d'"
    by simp
  show ?thesis
    using h1 h2 normalizer_idempotent [of ?loads "''in''" ?d ?d' 1 ?dumps "\<lambda>p r s. s", OF h1 h2 h3]
    by simp
qed

section \<open>Path Normalizer: when the fallback is taken\<close>

text \<open>
  C3, as stated, fails: a document whose top-level value is an object is not a list,
  yet no TypeError is raised for it (\<^verbatim>\<open>len\<close> and the loop accept a dict), so the
  structured path re-serialises it, image value untouched, and the regular expression
  is never applied.
\<close>

theorem fallback_skipped_for_top_level_object:
  \<open>clean_image_paths_in_json
     [''{"data": {"image": "a/b.png"}}'' \<mapsto>
        JObj [(''data'', JObj [(''image'', JStr ''a/b.png'')])]]
     (\<lambda>d n. ''serialised'') (\<lambda>p r s. ''rewritten'') ''{"data": {"image": "a/b.png"}}''
   = StructuredResult ''serialised'' 0\<close>
  by (simp add: clean_image_paths_in_json_def clean_data_JObj)

text \<open>
  C3, amended. The fallback (the text rewritten by \<^verbatim>\<open>re.sub\<close> with the image pattern,
  written in place of the document) is taken when the text does not parse and when its
  top-level value is null, a boolean or a number. A top-level object or string takes the
  structured path: it is re-serialised as it is, with a count of zero.
\<close>

theorem fallback_path_taken:
  "(loads content = None \<longrightarrow>
      clean_image_paths_in_json loads dumps re_sub content
        = RawBytesResult (re_sub image_pattern image_replacement content))
 \<and> (loads content = Some v
      \<and> (v = JNull \<or> (\<exists>b. v = JBool b) \<or> (\<exists>i. v = JInt i) \<or> (\<exists>m e. v = JFloat m e)) \<longrightarrow>
      clean_image_paths_in_json loads dumps re_sub content
        = RawBytesResult (re_sub image_pattern image_replacement content))
 \<and> (loads content = Some v \<and> ((\<exists>kvs. v = JObj kvs) \<or> (\<exists>s. v = JStr s)) \<longrightarrow>
      clean_image_paths_in_json loads dumps re_sub content = StructuredResult (dumps v 4) 0)"
  by (auto simp: clean_image_paths_in_json_def clean_data_unsized clean_data_JObj
      clean_data_JStr)

theorem fallback_path_taken_witness:
  "clean_image_paths_in_json (\<lambda>s. None) (\<lambda>d n. ''serialised'') (\<lambda>p r s. ''rewritten'') ''[oops''
     = RawBytesResult ''rewritten''
 \<and> clean_image_paths_in_json [''42'' \<mapsto> JInt 42] (\<lambda>d n. ''serialised'')
       (\<lambda>p r s. ''rewritten'') ''42''
     = RawBytesResult ''rewritten''
 \<and> clean_image_paths_in_json [''{}'' \<mapsto> JObj []] (\<lambda>d n. ''serialised'')
       (\<lambda>p r s. ''rewritten'') ''{}''
     = StructuredResult ''serialised'' 0"
  using
    fallback_path_taken [of "\<lambda>s. None" "''[oops''" "\<lambda>d n. ''serialised''"
      "\<lambda>p r s. ''rewritten''" JNull]
    fallback_path_taken [of "[''42'' \<mapsto> JInt 42]" "''42''" "\<lambda>d n. ''serialised''"
      "\<lambda>p r s. ''rewritten''" "JInt 42"]
    fallback_path_taken [of "[''{}'' \<mapsto> JObj []]" "''{}''" "\<lambda>d n. ''serialised''"
      "\<lambda>p r s. ''rewritten''" "JObj []"]
  by simp

section \<open>Image Locator: the names extracted\<close>

lemma py_lower_example: "py_lower ''photo.jpg.bak'' = ''photo.jpg.bak''"
  by (simp add: py_lower_def lower_char_def)

text \<open>
  C1. The structured path tests the name with \<^verbatim>\<open>ext in filename.lower()\<close>, containment,
  where the walk tests files with \<^verbatim>\<open>endswith\<close> and the pattern of the fallback anchors
  the extension at the end of the name. So for the document
  \<^verbatim>\<open>[{"data": {"image": "photo.jpg.bak"}}]\<close> the name \<^verbatim>\<open>photo.jpg.bak\<close>, which does not end
  in an image extension, is collected.
\<close>

theorem extract_collects_inner_extension:
  \<open>extract_image_names_from_json
     [''[{"data": {"image": "photo.jpg.bak"}}]'' \<mapsto>
        JArr [JObj [(''data'', JObj [(''image'', JStr ''photo.jpg.bak'')])]]]
     (\<lambda>pattern text. []) ''[{"data": {"image": "photo.jpg.bak"}}]''
     = Inr [''photo.jpg.bak'']
   \<and> \<not> py_endswith (py_lower ''photo.jpg.bak'') image_exts\<close>
  by (simp add: extract_image_names_from_json_def extract_data_def py_len_def py_iter_def
      extract_name_def py_contains_def py_getitem_def py_split_def py_lower_example
      image_exts_def py_endswith_def)

section \<open>Annotation Extractor: one result item\<close>

lemma process_result_image_quality:
  assumes "map_of r ''from_name'' = Some (JStr ''image_quality'')"
  shows "process_result lab (JObj r) =
     (case map_of r ''value'' of
        None \<Rightarrow> Inr lab
      | Some v \<Rightarrow>
          bindE (py_contains ''choices'' v) (\<lambda>c.
            if c then bindE (py_getitem v ''choices'') (\<lambda>ch.
                      bindE (py_join '', '' ch) (\<lambda>s. Inr (lab\<lparr>image_quality := s\<rparr>)))
            else Inr lab))"
  using assms
  by (auto simp: process_result_def tag_has_def value_at_def py_getitem_def Let_def bindE_def
      split: option.splits sum.splits)

lemma process_result_pizza_quality:
  assumes "map_of r ''from_name'' = Some (JStr ''pizza_quality'')"
  shows "process_result lab (JObj r) =
     (case map_of r ''value'' of
        None \<Rightarrow> Inr lab
      | Some v \<Rightarrow>
          bindE (py_contains ''choices'' v) (\<lambda>c.
            if c then bindE (py_getitem v ''choices'') (\<lambda>ch.
                      bindE (py_join '', '' ch) (\<lambda>s. Inr (lab\<lparr>pizza_quality := s\<rparr>)))
            else Inr lab))"
  using assms
  by (auto simp: process_result_def tag_has_def value_at_def py_getitem_def Let_def bindE_def
      split: option.splits sum.splits)

lemma process_result_pizza_quality_reason:
  assumes "map_of r ''from_name'' = Some (JStr ''pizza_quality_reason'')"
  shows "process_result lab (JObj r) =
     (case map_of r ''value'' of
        None \<Rightarrow> Inr lab
      | Some v \<Rightarrow>
          bindE (py_contains ''choices'' v) (\<lambda>c.
            if c then bindE (py_getitem v ''choices'') (\<lambda>ch.
                      bindE (py_join '', '' ch) (\<lambda>s. Inr (lab\<lparr>pizza_quality_reason := s\<rparr>)))
            else Inr lab))"
  using assms
  by (auto simp: process_result_def tag_has_def value_at_def py_getitem_def Let_def bindE_def
      split: option.splits sum.splits)

lemma process_result_comments:
  assumes "map_of r ''from_name'' = Some (JStr ''comments'')"
  shows "process_result lab (JObj r) =
     (case map_of r ''value'' of
        None \<Rightarrow> Inr lab
      | Some v \<Rightarrow>
          bindE (py_contains ''text'' v) (\<lambda>c.
            if c then bindE (py_getitem v ''text'') (\<lambda>t. Inr (lab\<lparr>comments := t\<rparr>))
            else Inr lab))"
  using assms
  by (auto simp: process_result_def tag_has_def value_at_def py_getitem_def Let_def bindE_def
      split: option.splits sum.splits)

lemma process_result_unrecognized:
  assumes "from_name_of (JObj r) \<notin> JStr ` set recognized"
  shows "process_result lab (JObj r) = Inr lab"
  using assms
  by (simp add: process_result_def tag_has_def from_name_of_def recognized_def)



lemma process_result_non_dict:
  "process_result lab result = Inr lab' \<Longrightarrow> \<exists>r. result = JObj r"
  by (cases result) (simp_all add: process_result_def)

lemma from_name_ofD:
  "from_name_of (JObj r) = JStr tag \<Longrightarrow> tag \<noteq> [] \<Longrightarrow> map_of r ''from_name'' = Some (JStr tag)"
  by (auto simp: from_name_of_def split: option.splits)

lemma process_result_frame:
  assumes "process_result lab result = Inr lab'"
  shows "lab' = lab
       \<or> (\<exists>s. from_name_of result = JStr ''image_quality'' \<and> lab' = lab\<lparr>image_quality := s\<rparr>)
       \<or> (\<exists>s. from_name_of result = JStr ''pizza_quality'' \<and> lab' = lab\<lparr>pizza_quality := s\<rparr>)
       \<or> (\<exists>s. from_name_of result = JStr ''pizza_quality_reason''
              \<and> lab' = lab\<lparr>pizza_quality_reason := s\<rparr>)
       \<or> (\<exists>t. from_name_of result = JStr ''comments'' \<and> lab' = lab\<lparr>comments := t\<rparr>)"
proof -
  from assms obtain r where r: "result = JObj r"
    by (auto dest: process_result_non_dict)
  consider
      (iq) "from_name_of (JObj r) = JStr ''image_quality''"
    | (pq) "from_name_of (JObj r) = JStr ''pizza_quality''"
    | (pqr) "from_name_of (JObj r) = JStr ''pizza_quality_reason''"
    | (co) "from_name_of (JObj r) = JStr ''comments''"
    | (other) "from_name_of (JObj r) \<notin> JStr ` set recognized"
    by (auto simp: recognized_def)
  then show ?thesis
  proof cases
    case iq
    then have m: "map_of r ''from_name'' = Some (JStr ''image_quality'')"
      by (auto dest: from_name_ofD)
    from assms show ?thesis
      unfolding r iq process_result_image_quality [OF m]
      by (auto simp: bindE_eq_Inr split: option.splits if_splits)
  next
    case pq
    then have m: "map_of r ''from_name'' = Some (JStr ''pizza_quality'')"
      by (auto dest: from_name_ofD)
    from assms show ?thesis
      unfolding r pq process_result_pizza_quality [OF m]
      by (auto simp: bindE_eq_Inr split: option.splits if_splits)
  next
    case pqr
    then have m: "map_of r ''from_name'' = Some (JStr ''pizza_quality_reason'')"
      by (auto dest: from_name_ofD)
    from assms show ?thesis
      unfolding r pqr process_result_pizza_quality_reason [OF m]
      by (auto simp: bindE_eq_Inr split: option.splits if_splits)
  next
    case co
    then have m: "map_of r ''from_name'' = Some (JStr ''comments'')"
      by (auto dest: from_name_ofD)
    from assms show ?thesis
      unfolding r co process_result_comments [OF m]
      by (auto simp: bindE_eq_Inr split: option.splits if_splits)
  next
    case other
    with assms r show ?thesis
      by (simp add: process_result_unrecognized)
  qed
qed


lemma process_result_keeps_field:
  assumes "process_result lab result = Inr lab'" and "from_name_of result \<noteq> JStr tag"
    and "tag \<in> set recognized"
  shows "field_of tag lab' = field_of tag lab"
proof -
  from process_result_frame [OF assms(1)] show ?thesis
  proof (elim disjE exE conjE)
    assume "lab' = lab"
    then show ?thesis by simp
  next
    fix s
    assume a: "from_name_of result = JStr ''image_quality''" "lab' = lab\<lparr>image_quality := s\<rparr>"
    with assms(2) have "tag \<noteq> ''image_quality''" by auto
    with a(2) show ?thesis by (simp add: field_of_def)
  next
    fix s
    assume a: "from_name_of result = JStr ''pizza_quality''" "lab' = lab\<lparr>pizza_quality := s\<rparr>"
    with assms(2) have "tag \<noteq> ''pizza_quality''" by auto
    with a(2) show ?thesis by (simp add: field_of_def)
  next
    fix s
    assume a: "from_name_of result = JStr ''pizza_quality_reason''"
      "lab' = lab\<lparr>pizza_quality_reason := s\<rparr>"
    with assms(2) have "tag \<noteq> ''pizza_quality_reason''" by auto
    with a(2) show ?thesis by (simp add: field_of_def)
  next
    fix t
    assume a: "from_name_of result = JStr ''comments''" "lab' = lab\<lparr>comments := t\<rparr>"
    with assms(2) have "tag \<noteq> ''comments''" by auto
    moreover from assms(3) have "tag = ''image_quality'' \<or> tag = ''pizza_quality''
        \<or> tag = ''pizza_quality_reason'' \<or> tag = ''comments''"
      by (simp add: recognized_def)
    ultimately have "tag = ''image_quality'' \<or> tag = ''pizza_quality''
        \<or> tag = ''pizza_quality_reason''"
      by blast
    then show ?thesis
      unfolding a(2)
      by (elim disjE) (simp_all add: field_of_def)
  qed
qed

lemma strs_of_map_JStr: "strs_of xs = Inr ss \<Longrightarrow> xs = map JStr ss"
proof (induction xs arbitrary: ss)
  case Nil
  then show ?case by simp
next
  case (Cons x xs)
  then show ?case by (cases x) (auto simp: bindE_eq_Inr)
qed

lemma py_join_strs: "strs_of xs = Inr ss \<Longrightarrow> py_join sep (JArr xs) = Inr (join_strs sep ss)"
  by (simp add: py_join_def py_iter_def)

lemma process_result_sets_field:
  assumes "item_value tag result = Some x" and "tag \<in> set recognized"
  shows "\<exists>lab'. process_result lab result = Inr lab' \<and> field_of tag lab' = x"
proof -
  from assms(1) obtain r v where r: "result = JObj r"
    and fn: "map_of r ''from_name'' = Some (JStr tag)"
    and v: "map_of r ''value'' = Some (JObj v)"
    and x: "(if tag = ''comments'' then map_of v ''text''
             else (case map_of v ''choices'' of
                       Some (JArr xs) \<Rightarrow>
                         (case strs_of xs of
                            Inr ss \<Rightarrow> Some (JStr (join_strs '', '' ss))
                          | Inl _ \<Rightarrow> None)
                     | _ \<Rightarrow> None)) = Some x"
    using assms(2)
    by (auto simp: item_value_def from_name_of_def recognized_def
        split: if_splits json.splits option.splits)
  show ?thesis
  proof (cases "tag = ''comments''")
    case True
    with x have "map_of v ''text'' = Some x" by simp
    then show ?thesis
      using fn v True
      by (simp add: r process_result_comments py_contains_def py_getitem_def field_of_def)
  next
    case False
    with x obtain xs ss where ch: "map_of v ''choices'' = Some (JArr xs)"
      and ss: "strs_of xs = Inr ss" and xe: "x = JStr (join_strs '', '' ss)"
      by (auto split: option.splits json.splits sum.splits)
    from False assms(2) consider "tag = ''image_quality''" | "tag = ''pizza_quality''"
      | "tag = ''pizza_quality_reason''"
      by (auto simp: recognized_def)
    then show ?thesis
    proof cases
      case 1
      then show ?thesis
        using fn v ch py_join_strs [OF ss] xe
        by (simp add: r process_result_image_quality py_contains_def py_getitem_def field_of_def)
    next
      case 2
      then show ?thesis
        using fn v ch py_join_strs [OF ss] xe
        by (simp add: r process_result_pizza_quality py_contains_def py_getitem_def field_of_def)
    next
      case 3
      then show ?thesis
        using fn v ch py_join_strs [OF ss] xe
        by (simp add: r process_result_pizza_quality_reason py_contains_def py_getitem_def
            field_of_def)
    qed
  qed
qed

lemma process_results_append:
  "process_results lab (xs @ ys) = bindE (process_results lab xs) (\<lambda>l. process_results l ys)"
proof (induction xs arbitrary: lab)
  case Nil
  then show ?case by simp
next
  case (Cons x xs)
  then show ?case by (cases "process_result lab x") simp_all
qed

lemma process_results_keep_field:
  assumes "process_results lab rs = Inr lab'" and "\<forall>r\<in>set rs. from_name_of r \<noteq> JStr tag"
    and "tag \<in> set recognized"
  shows "field_of tag lab' = field_of tag lab"
  using assms
proof (induction rs arbitrary: lab)
  case Nil
  then show ?case by simp
next
  case (Cons r rs)
  from Cons.prems(1) obtain l where l: "process_result lab r = Inr l"
    and rest: "process_results l rs = Inr lab'"
    by (auto simp: bindE_eq_Inr)
  have "field_of tag l = field_of tag lab"
    using l Cons.prems(2,3) by (auto intro: process_result_keeps_field)
  moreover have "field_of tag lab' = field_of tag l"
    using Cons.IH [OF rest] Cons.prems(2,3) by simp
  ultimately show ?case by simp
qed

lemma last_wins_results:
  assumes "process_results lab (before @ r # after) = Inr lab'"
    and "item_value tag r = Some x" and "tag \<in> set recognized"
    and "\<forall>y\<in>set after. from_name_of y \<noteq> JStr tag"
  shows "field_of tag lab' = x"
proof -
  from assms(1) obtain l1 l2 where "process_results lab before = Inr l1"
    and l2: "process_result l1 r = Inr l2" and rest: "process_results l2 after = Inr lab'"
    by (auto simp: process_results_append bindE_eq_Inr)
  from process_result_sets_field [OF assms(2,3), of l1] l2 have "field_of tag l2 = x"
    by simp
  with process_results_keep_field [OF rest assms(4,3)] show ?thesis by simp
qed

lemma process_annotation_flat:
  assumes "process_annotation lab a = Inr l"
  shows "process_results lab (results_in a) = Inr l"
proof -
  from assms obtain h where h: "py_contains ''result'' a = Inr h"
    by (auto simp: process_annotation_def bindE_eq_Inr)
  show ?thesis
  proof (cases h)
    case False
    with assms h have "l = lab"
      by (simp add: process_annotation_def)
    moreover from h False have "results_in a = []"
      by (cases a) (auto simp: py_contains_def results_in_def split: option.splits)
    ultimately show ?thesis by simp
  next
    case True
    with assms h obtain res rs where res: "py_getitem a ''result'' = Inr res"
      and it: "py_iter res = Inr rs" and pr: "process_results lab rs = Inr l"
      by (auto simp: process_annotation_def bindE_eq_Inr)
    from res obtain akvs where a: "a = JObj akvs" "map_of akvs ''result'' = Some res"
      by (auto simp: py_getitem_Inr)
    show ?thesis
    proof (cases res)
      case (JArr xs)
      with it a pr show ?thesis
        by (simp add: results_in_def py_iter_def)
    next
      case (JObj kvs)
      with it have rs: "rs = map (\<lambda>kv. JStr (fst kv)) kvs"
        by (simp add: py_iter_def)
      have "rs = []"
      proof (cases rs)
        case (Cons y ys)
        with rs obtain s where "y = JStr s" by auto
        with pr Cons show ?thesis by (simp add: process_result_def)
      qed simp
      with pr a JObj show ?thesis
        by (simp add: results_in_def)
    next
      case (JStr s)
      with it have rs: "rs = map (\<lambda>c. JStr [c]) s"
        by (simp add: py_iter_def)
      have "rs = []"
      proof (cases rs)
        case (Cons y ys)
        with rs obtain t where "y = JStr t" by auto
        with pr Cons show ?thesis by (simp add: process_result_def)
      qed simp
      with pr a JStr show ?thesis
        by (simp add: results_in_def)
    qed (use it in \<open>simp_all add: py_iter_def\<close>)
  qed
qed

lemma process_annotations_flat:
  "process_annotations lab anns = Inr lab'
     \<Longrightarrow> process_results lab (concat (map results_in anns)) = Inr lab'"
proof (induction anns arbitrary: lab)
  case Nil
  then show ?case by simp
next
  case (Cons a anns)
  from Cons.prems obtain l where l: "process_annotation lab a = Inr l"
    and rest: "process_annotations l anns = Inr lab'"
    by (auto simp: bindE_eq_Inr)
  show ?case
    using process_annotation_flat [OF l] Cons.IH [OF rest]
    by (simp add: process_results_append)
qed

section \<open>Annotation Extractor: one record\<close>

lemma IMAGE_PREFIX_nonempty: "IMAGE_PREFIX \<noteq> []"
  by (simp add: IMAGE_PREFIX_def)

lemma extract_item_present:
  assumes "map_of kvs ''data'' = Some d" and "map_of kvs ''annotations'' = Some a"
  shows "extract_item repr (JObj kvs) =
     bindE (py_contains ''image'' d) (\<lambda>has_image.
     bindE (if has_image
            then bindE (py_getitem d ''image'') (\<lambda>filename.
                   Inr (Some (filename, IMAGE_PREFIX @ py_format repr filename)))
            else Inr None) (\<lambda>image_path.
     bindE (if py_truthy a
            then bindE (py_iter a) (process_annotations default_labels)
            else Inr default_labels) (\<lambda>lab.
     case image_path of
       None \<Rightarrow> Inr None
     | Some (filename, path) \<Rightarrow>
         if path \<noteq> [] then
           Inr (Some \<lparr>image_quality = image_quality lab,
                      pizza_quality = pizza_quality lab,
                      pizza_quality_reason = pizza_quality_reason lab,
                      comments = comments lab,
                      image = path,
                      image_filename = filename\<rparr>)
         else Inr None)))"
  using assms by (simp add: extract_item_def)

lemma extract_item_absent:
  assumes "map_of kvs ''data'' = None \<or> map_of kvs ''annotations'' = None"
  shows "extract_item repr (JObj kvs) = Inr None"
  using assms by (auto simp: extract_item_def split: option.splits)

lemma extract_item_non_dict:
  assumes "\<forall>kvs. item \<noteq> JObj kvs"
  shows "extract_item repr item = Inr None"
  using assms by (cases item) (simp_all add: extract_item_def)

lemma extract_item_SomeD:
  assumes "extract_item repr item = Inr (Some flat)"
  obtains kvs d a v lab where "item = JObj kvs" "map_of kvs ''data'' = Some (JObj d)"
    "map_of kvs ''annotations'' = Some a" "map_of d ''image'' = Some v"
    "(if py_truthy a then bindE (py_iter a) (process_annotations default_labels)
      else Inr default_labels) = Inr lab"
    "flat = \<lparr>image_quality = image_quality lab,
                      pizza_quality = pizza_quality lab,
                      pizza_quality_reason = pizza_quality_reason lab,
                      comments = comments lab,
                      image = IMAGE_PREFIX @ py_format repr v,
                      image_filename = v\<rparr>"
proof -
  from assms obtain kvs where k: "item = JObj kvs"
    using extract_item_non_dict [of item repr] by auto
  from assms k obtain d a where d: "map_of kvs ''data'' = Some d"
    and a: "map_of kvs ''annotations'' = Some a"
    using extract_item_absent [of kvs repr]
    by (cases "map_of kvs ''data''"; cases "map_of kvs ''annotations''") auto
  note ei = extract_item_present [OF d a, of repr]
  from assms k obtain h where h: "py_contains ''image'' d = Inr h"
    by (auto simp: ei bindE_eq_Inr)
  have hT: h
  proof (rule ccontr)
    assume "\<not> h"
    with assms k h show False
      by (auto simp: ei bindE_eq_Inr)
  qed
  from assms k h hT obtain v where g: "py_getitem d ''image'' = Inr v"
    by (auto simp: ei bindE_eq_Inr)
  from assms k h hT g obtain lab where
    lab: "(if py_truthy a then bindE (py_iter a) (process_annotations default_labels)
           else Inr default_labels) = Inr lab"
    by (auto simp: ei bindE_eq_Inr)
  from g obtain dk where dk: "d = JObj dk" "map_of dk ''image'' = Some v"
    by (auto simp: py_getitem_Inr)
  have fl: "flat = \<lparr>image_quality = image_quality lab,
                      pizza_quality = pizza_quality lab,
                      pizza_quality_reason = pizza_quality_reason lab,
                      comments = comments lab,
                      image = IMAGE_PREFIX @ py_format repr v,
                      image_filename = v\<rparr>"
    using assms k h hT g lab by (auto simp: ei IMAGE_PREFIX_nonempty)
  show ?thesis
    using that [OF k d [unfolded dk(1)] a dk(2) lab fl] .
qed


lemma extract_item_falsy:
  assumes "map_of kvs ''data'' = Some (JObj d)" and "map_of d ''image'' = Some v"
    and "map_of kvs ''annotations'' = Some a" and "\<not> py_truthy a"
  shows "extract_item repr (JObj kvs) =
           Inr (Some \<lparr>image_quality = ''N/A'', pizza_quality = ''N/A'',
                      pizza_quality_reason = ''N/A'', comments = JStr ''N/A'',
                      image = IMAGE_PREFIX @ py_format repr v, image_filename = v\<rparr>)"
  using assms
  by (simp add: extract_item_present py_contains_def py_getitem_def default_labels_def
      IMAGE_PREFIX_nonempty)

text \<open>
  C2, as stated, fails for an absent \<^verbatim>\<open>annotations\<close> key: the record is skipped by the
  test \<^verbatim>\<open>'data' not in item or 'annotations' not in item\<close>, so no record with the
  sentinel labels comes out for it.
\<close>

theorem absent_annotations_dropped:
  "extract_annotation_data (\<lambda>v. [])
     (JArr [JObj [(''data'', JObj [(''image'', JStr ''pizza3.jpg'')])]]) = Inr []"
  by (simp add: extract_annotation_data_def py_iter_def extract_item_absent)

text \<open>
  C2, amended. A record with an image value and an empty \<^verbatim>\<open>annotations\<close> list gives
  a flat record whose four label fields are \<^verbatim>\<open>N/A\<close>; a record with an image value and
  no \<^verbatim>\<open>annotations\<close> key gives no flat record.
\<close>

theorem empty_annotations_default_labels:
  assumes "map_of kvs ''data'' = Some (JObj d)" and "map_of d ''image'' = Some v"
  shows "(map_of kvs ''annotations'' = Some (JArr []) \<longrightarrow>
            extract_item repr (JObj kvs) =
              Inr (Some \<lparr>image_quality = ''N/A'', pizza_quality = ''N/A'',
                         pizza_quality_reason = ''N/A'', comments = JStr ''N/A'',
                         image = IMAGE_PREFIX @ py_format repr v, image_filename = v\<rparr>))
       \<and> (map_of kvs ''annotations'' = None \<longrightarrow> extract_item repr (JObj kvs) = Inr None)"
  using assms extract_item_falsy [OF assms, of "JArr []" repr] extract_item_absent [of kvs repr]
  by (simp add: py_truthy_def)

theorem empty_annotations_default_labels_witness:
  "map_of [(''data'', JObj [(''image'', JStr ''pizza2.png'')]), (''annotations'', JArr [])] ''data''
     = Some (JObj [(''image'', JStr ''pizza2.png'')])
   \<and> map_of [(''image'', JStr ''pizza2.png'')] ''image'' = Some (JStr ''pizza2.png'')
   \<and> extract_item (\<lambda>v. [])
        (JObj [(''data'', JObj [(''image'', JStr ''pizza2.png'')]), (''annotations'', JArr [])])
      = Inr (Some \<lparr>image_quality = ''N/A'', pizza_quality = ''N/A'',
                    pizza_quality_reason = ''N/A'', comments = JStr ''N/A'',
                    image = IMAGE_PREFIX @ ''pizza2.png'', image_filename = JStr ''pizza2.png''\<rparr>)
   \<and> extract_item (\<lambda>v. []) (JObj [(''data'', JObj [(''image'', JStr ''pizza2.png'')])]) = Inr None"
  using
    empty_annotations_default_labels [of "[(''data'', JObj [(''image'', JStr ''pizza2.png'')]), (''annotations'', JArr [])]"
        "[(''image'', JStr ''pizza2.png'')]" "JStr ''pizza2.png''" "\<lambda>v. []"]
    empty_annotations_default_labels [of "[(''data'', JObj [(''image'', JStr ''pizza2.png'')])]"
        "[(''image'', JStr ''pizza2.png'')]" "JStr ''pizza2.png''" "\<lambda>v. []"]
  by (simp add: py_format_def)

section \<open>Annotation Extractor: which records are kept, and which item wins\<close>

lemma extract_item_included:
  assumes "extract_item repr item = Inr r"
  shows "(r \<noteq> None \<longleftrightarrow> included item)
       \<and> (\<forall>flat. r = Some flat \<longrightarrow> data_image item = Some (image_filename flat))"
proof (cases r)
  case None
  have "\<not> included item"
  proof
    assume inc: "included item"
    then obtain kvs d a where k: "item = JObj kvs" and d: "map_of kvs ''data'' = Some (JObj d)"
      and a: "map_of kvs ''annotations'' = Some a" and i: "map_of d ''image'' \<noteq> None"
      by (auto simp: included_def split: json.splits option.splits)
    from i obtain v where v: "map_of d ''image'' = Some v" by auto
    from assms None show False
      unfolding k extract_item_present [OF d a]
      using v
      by (auto simp: py_contains_def py_getitem_def bindE_eq_Inr IMAGE_PREFIX_nonempty)
  qed
  with None show ?thesis by simp
next
  case (Some flat)
  with assms have "extract_item repr item = Inr (Some flat)" by simp
  then obtain kvs d a v and lab :: labels where "item = JObj kvs"
    "map_of kvs ''data'' = Some (JObj d)"
    "map_of kvs ''annotations'' = Some a" "map_of d ''image'' = Some v"
    "flat = \<lparr>image_quality = image_quality lab,
                      pizza_quality = pizza_quality lab,
                      pizza_quality_reason = pizza_quality_reason lab,
                      comments = comments lab,
                      image = IMAGE_PREFIX @ py_format repr v,
                      image_filename = v\<rparr>"
    by (rule extract_item_SomeD)
  with Some show ?thesis
    by (simp add: included_def data_image_def)
qed

lemma extract_items_included:
  "extract_items repr records = Inr out
     \<Longrightarrow> map image_filename out = map (\<lambda>item. the (data_image item)) (filter included records)"
proof (induction records arbitrary: out)
  case Nil
  then show ?case by simp
next
  case (Cons item records)
  from Cons.prems obtain r rs where r: "extract_item repr item = Inr r"
    and rs: "extract_items repr records = Inr rs"
    and out: "out = (case r of None \<Rightarrow> rs | Some flat \<Rightarrow> flat # rs)"
    by (auto simp: bindE_eq_Inr)
  from extract_item_included [OF r] Cons.IH [OF rs] out show ?case
    by (cases r) auto
qed

lemma extract_items_each:
  "extract_items repr records = Inr out \<Longrightarrow> item \<in> set records
     \<Longrightarrow> \<exists>r. extract_item repr item = Inr r"
proof (induction records arbitrary: out)
  case Nil
  then show ?case by simp
next
  case (Cons x records)
  from Cons.prems(1) obtain r rs where r: "extract_item repr x = Inr r"
    and rs: "extract_items repr records = Inr rs"
    by (auto simp: bindE_eq_Inr)
  from Cons.prems(2) have "item = x \<or> item \<in> set records" by auto
  then show ?case
    using r Cons.IH [OF rs] by blast
qed

text \<open>
  C6. When the extractor returns, its output lists, in order, exactly the records
  that are mappings with the keys \<^verbatim>\<open>data\<close> and \<^verbatim>\<open>annotations\<close> and an \<^verbatim>\<open>image\<close> key in
  the \<^verbatim>\<open>data\<close> mapping: each record yields a flat record if and only if it is one of
  them. A record with \<^verbatim>\<open>data\<close> but no image is left out, and so is a record with an
  image but no \<^verbatim>\<open>annotations\<close> key.
\<close>

theorem extractor_inclusion:
  assumes "extract_annotation_data repr (JArr records) = Inr out"
  shows "map image_filename out = map (\<lambda>item. the (data_image item)) (filter included records)
       \<and> (\<forall>item\<in>set records. \<exists>r. extract_item repr item = Inr r \<and> (r \<noteq> None \<longleftrightarrow> included item))
       \<and> extract_annotation_data repr
            (JArr [JObj [(''data'', JObj []), (''annotations'', JArr [])]]) = Inr []
       \<and> extract_annotation_data repr
            (JArr [JObj [(''data'', JObj [(''image'', JStr ''a.jpg'')])]]) = Inr []"
proof (intro conjI ballI)
  from assms have ei: "extract_items repr records = Inr out"
    by (simp add: extract_annotation_data_def py_iter_def)
  then show "map image_filename out
      = map (\<lambda>item. the (data_image item)) (filter included records)"
    by (rule extract_items_included)
  fix item
  assume "item \<in> set records"
  with ei obtain r where "extract_item repr item = Inr r"
    by (blast dest: extract_items_each)
  with extract_item_included [OF this]
  show "\<exists>r. extract_item repr item = Inr r \<and> (r \<noteq> None \<longleftrightarrow> included item)"
    by blast
next
  show "extract_annotation_data repr
            (JArr [JObj [(''data'', JObj []), (''annotations'', JArr [])]]) = Inr []"
    by (simp add: extract_annotation_data_def py_iter_def extract_item_present py_contains_def
        py_truthy_def)
  show "extract_annotation_data repr
            (JArr [JObj [(''data'', JObj [(''image'', JStr ''a.jpg'')])]]) = Inr []"
    by (simp add: extract_annotation_data_def py_iter_def extract_item_absent)
qed

text \<open>
  C7. Take the result items of a record in the order they are walked (annotations in
  order, the items of each in order). If \<open>r\<close> is a well-formed item with a recognized
  tag and no later item has that tag, the field of the flat record for that tag is the
  value of \<open>r\<close>, whatever items with the same tag came before.
\<close>

theorem extractor_last_wins:
  assumes "extract_item repr (JObj kvs) = Inr (Some flat)"
    and "map_of kvs ''annotations'' = Some (JArr anns)"
    and "concat (map results_in anns) = before @ r # after"
    and "tag \<in> set recognized"
    and "item_value tag r = Some x"
    and "\<forall>y\<in>set after. from_name_of y \<noteq> JStr tag"
  shows "field_of tag flat = x"
proof -
  from assms(1) obtain kvs' d a v lab where k: "JObj kvs = JObj kvs'"
    and a: "map_of kvs' ''annotations'' = Some a"
    and lab: "(if py_truthy a then bindE (py_iter a) (process_annotations default_labels)
      else Inr default_labels) = Inr lab"
    and fl: "flat = \<lparr>image_quality = image_quality lab,
                      pizza_quality = pizza_quality lab,
                      pizza_quality_reason = pizza_quality_reason lab,
                      comments = comments lab,
                      image = IMAGE_PREFIX @ py_format repr v,
                      image_filename = v\<rparr>"
    by (rule extract_item_SomeD)
  from k a assms(2) have a': "a = JArr anns" by simp
  from assms(3) have "anns \<noteq> []" by auto
  with lab a' have "process_annotations default_labels anns = Inr lab"
    by (simp add: py_truthy_def py_iter_def)
  then have "process_results default_labels (before @ r # after) = Inr lab"
    using process_annotations_flat assms(3) by metis
  then have "field_of tag lab = x"
    using assms(5,4,6) by (rule last_wins_results)
  moreover have "field_of tag flat = field_of tag lab"
    by (simp add: fl field_of_def)
  ultimately show ?thesis by simp
qed

lemma e2e_first:
  "extract_item (\<lambda>v. [])
     (JObj [(''data'', JObj [(''image'', JStr ''pizza1.jpg'')]),
            (''annotations'', JArr [JObj [(''result'',
               JArr [JObj [(''from_name'', JStr ''pizza_quality''),
                           (''value'', JObj [(''choices'', JArr [JStr ''Good''])])]])]])])
   = Inr (Some \<lparr>image_quality = ''N/A'', pizza_quality = ''Good'',
                 pizza_quality_reason = ''N/A'', comments = JStr ''N/A'',
                 image = IMAGE_PREFIX @ ''pizza1.jpg'', image_filename = JStr ''pizza1.jpg''\<rparr>)"
  by (simp add: extract_item_present py_contains_def py_getitem_def py_truthy_def py_iter_def
      process_annotation_def process_result_pizza_quality py_join_def default_labels_def
      py_format_def IMAGE_PREFIX_nonempty)

lemma e2e_second:
  "extract_item (\<lambda>v. [])
     (JObj [(''data'', JObj [(''image'', JStr ''pizza2.png'')]), (''annotations'', JArr [])])
   = Inr (Some \<lparr>image_quality = ''N/A'', pizza_quality = ''N/A'',
                 pizza_quality_reason = ''N/A'', comments = JStr ''N/A'',
                 image = IMAGE_PREFIX @ ''pizza2.png'', image_filename = JStr ''pizza2.png''\<rparr>)"
  by (simp add: extract_item_falsy py_truthy_def py_format_def)

lemma e2e_third:
  "extract_item (\<lambda>v. []) (JObj [(''data'', JObj [(''image'', JStr ''pizza3.jpg'')])]) = Inr None"
  by (simp add: extract_item_absent)

lemma e2e_all:
  "extract_annotation_data (\<lambda>v. [])
     (JArr [JObj [(''data'', JObj [(''image'', JStr ''pizza1.jpg'')]),
                  (''annotations'', JArr [JObj [(''result'',
                     JArr [JObj [(''from_name'', JStr ''pizza_quality''),
                                 (''value'', JObj [(''choices'', JArr [JStr ''Good''])])]])]])],
            JObj [(''data'', JObj [(''image'', JStr ''pizza2.png'')]), (''annotations'', JArr [])],
            JObj [(''data'', JObj [(''image'', JStr ''pizza3.jpg'')])]])
   = Inr [\<lparr>image_quality = ''N/A'', pizza_quality = ''Good'',
            pizza_quality_reason = ''N/A'', comments = JStr ''N/A'',
            image = IMAGE_PREFIX @ ''pizza1.jpg'', image_filename = JStr ''pizza1.jpg''\<rparr>,
          \<lparr>image_quality = ''N/A'', pizza_quality = ''N/A'',
            pizza_quality_reason = ''N/A'', comments = JStr ''N/A'',
            image = IMAGE_PREFIX @ ''pizza2.png'', image_filename = JStr ''pizza2.png''\<rparr>]"
  by (simp add: extract_annotation_data_def py_iter_def e2e_first e2e_second e2e_third)

theorem extractor_inclusion_witness:
  "extract_annotation_data (\<lambda>v. [])
     (JArr [JObj [(''data'', JObj [(''image'', JStr ''pizza1.jpg'')]),
                  (''annotations'', JArr [JObj [(''result'',
                     JArr [JObj [(''from_name'', JStr ''pizza_quality''),
                                 (''value'', JObj [(''choices'', JArr [JStr ''Good''])])]])]])],
            JObj [(''data'', JObj [(''image'', JStr ''pizza2.png'')]), (''annotations'', JArr [])],
            JObj [(''data'', JObj [(''image'', JStr ''pizza3.jpg'')])]])
   = Inr [\<lparr>image_quality = ''N/A'', pizza_quality = ''Good'',
            pizza_quality_reason = ''N/A'', comments = JStr ''N/A'',
            image = IMAGE_PREFIX @ ''pizza1.jpg'', image_filename = JStr ''pizza1.jpg''\<rparr>,
          \<lparr>image_quality = ''N/A'', pizza_quality = ''N/A'',
            pizza_quality_reason = ''N/A'', comments = JStr ''N/A'',
            image = IMAGE_PREFIX @ ''pizza2.png'', image_filename = JStr ''pizza2.png''\<rparr>]
   \<and> [JStr ''pizza1.jpg'', JStr ''pizza2.png'']
     = map (\<lambda>item. the (data_image item)) (filter included
        [JObj [(''data'', JObj [(''image'', JStr ''pizza1.jpg'')]),
                  (''annotations'', JArr [JObj [(''result'',
                     JArr [JObj [(''from_name'', JStr ''pizza_quality''),
                                 (''value'', JObj [(''choices'', JArr [JStr ''Good''])])]])]])],
            JObj [(''data'', JObj [(''image'', JStr ''pizza2.png'')]), (''annotations'', JArr [])],
            JObj [(''data'', JObj [(''image'', JStr ''pizza3.jpg'')])]])"
  using e2e_all extractor_inclusion [OF e2e_all] by simp

lemma last_wins_example:
  "extract_item (\<lambda>v. [])
     (JObj [(''data'', JObj [(''image'', JStr ''p.jpg'')]),
            (''annotations'', JArr [JObj [(''result'',
               JArr [JObj [(''from_name'', JStr ''comments''),
                           (''value'', JObj [(''text'', JStr ''first'')])],
                     JObj [(''from_name'', JStr ''comments''),
                           (''value'', JObj [(''text'', JStr ''second'')])],
                     JObj [(''from_name'', JStr ''pizza_quality''),
                           (''value'', JObj [(''choices'', JArr [JStr ''Good'', JStr ''Crispy''])])]])]])])
   = Inr (Some \<lparr>image_quality = ''N/A'', pizza_quality = ''Good, Crispy'',
                 pizza_quality_reason = ''N/A'', comments = JStr ''second'',
                 image = IMAGE_PREFIX @ ''p.jpg'', image_filename = JStr ''p.jpg''\<rparr>)"
  by (simp add: extract_item_present py_contains_def py_getitem_def py_truthy_def py_iter_def
      process_annotation_def process_result_pizza_quality process_result_comments py_join_def
      default_labels_def py_format_def IMAGE_PREFIX_nonempty)

theorem extractor_last_wins_witness:
  "extract_item (\<lambda>v. [])
     (JObj [(''data'', JObj [(''image'', JStr ''p.jpg'')]),
            (''annotations'', JArr [JObj [(''result'',
               JArr [JObj [(''from_name'', JStr ''comments''),
                           (''value'', JObj [(''text'', JStr ''first'')])],
                     JObj [(''from_name'', JStr ''comments''),
                           (''value'', JObj [(''text'', JStr ''second'')])],
                     JObj [(''from_name'', JStr ''pizza_quality''),
                           (''value'', JObj [(''choices'', JArr [JStr ''Good'', JStr ''Crispy''])])]])]])])
   = Inr (Some \<lparr>image_quality = ''N/A'', pizza_quality = ''Good, Crispy'',
                 pizza_quality_reason = ''N/A'', comments = JStr ''second'',
                 image = IMAGE_PREFIX @ ''p.jpg'', image_filename = JStr ''p.jpg''\<rparr>)
   \<and> item_value ''comments''
        (JObj [(''from_name'', JStr ''comments''), (''value'', JObj [(''text'', JStr ''second'')])])
      = Some (JStr ''second'')
   \<and> field_of ''comments''
        \<lparr>image_quality = ''N/A'', pizza_quality = ''Good, Crispy'',
          pizza_quality_reason = ''N/A'', comments = JStr ''second'',
          image = IMAGE_PREFIX @ ''p.jpg'', image_filename = JStr ''p.jpg''\<rparr> = JStr ''second''"
proof -
  let ?c1 = "JObj [(''from_name'', JStr ''comments''), (''value'', JObj [(''text'', JStr ''first'')])]"
  let ?c2 = "JObj [(''from_name'', JStr ''comments''), (''value'', JObj [(''text'', JStr ''second'')])]"
  let ?q = "JObj [(''from_name'', JStr ''pizza_quality''),
                  (''value'', JObj [(''choices'', JArr [JStr ''Good'', JStr ''Crispy''])])]"
  let ?anns = "[JObj [(''result'', JArr [?c1, ?c2, ?q])]]"
  let ?kvs = "[(''data'', JObj [(''image'', JStr ''p.jpg'')]), (''annotations'', JArr ?anns)]"
  have h2: "map_of ?kvs ''annotations'' = Some (JArr ?anns)"
    by simp
  have h3: "concat (map results_in ?anns) = [?c1] @ ?c2 # [?q]"
    by (simp add: results_in_def)
  have h4: "''comments'' \<in> set recognized"
    by (simp add: recognized_def)
  have h5: "item_value ''comments'' ?c2 = Some (JStr ''second'')"
    by (simp add: item_value_def from_name_of_def)
  have h6: "\<forall>y\<in>set [?q]. from_name_of y \<noteq> JStr ''comments''"
    by (simp add: from_name_of_def)
  show ?thesis
    using last_wins_example h5 extractor_last_wins [OF last_wins_example h2 h3 h4 h5 h6] by simp
qed

section \<open>Annotation Extractor: malformed nested structure\<close>

text \<open>
  C10, as stated, fails: the extractor has no handler and no test on the types of the
  nested values, so a result item tagged \<^verbatim>\<open>comments\<close> whose \<^verbatim>\<open>value\<close> is null (it has no
  \<^verbatim>\<open>text\<close> key) raises TypeError at \<^verbatim>\<open>'text' in result['value']\<close>.
\<close>

theorem extractor_raises_on_null_value:
  "extract_annotation_data (\<lambda>v. [])
     (JArr [JObj [(''data'', JObj [(''image'', JStr ''a.jpg'')]),
                  (''annotations'', JArr [JObj [(''result'',
                     JArr [JObj [(''from_name'', JStr ''comments''), (''value'', JNull)]])]])]])
   = Inl TypeError"
  by (simp add: extract_annotation_data_def py_iter_def extract_item_present py_contains_def
      py_getitem_def py_truthy_def process_annotation_def process_result_comments)

lemma strs_of_total: "list_all is_str xs \<Longrightarrow> \<exists>ss. strs_of xs = Inr ss"
proof (induction xs)
  case Nil
  then show ?case by simp
next
  case (Cons x xs)
  then show ?case by (cases x) (auto simp: is_str_def)
qed

lemma conforming_result_iff:
  "conforming_result result \<longleftrightarrow>
     (\<exists>r. result = JObj r
        \<and> (map_of r ''value'' = None
           \<or> (\<exists>v. map_of r ''value'' = Some (JObj v)
                \<and> (map_of v ''choices'' = None
                   \<or> (\<exists>xs. map_of v ''choices'' = Some (JArr xs) \<and> list_all is_str xs)))))"
proof (cases result)
  case (JObj r)
  show ?thesis
  proof (cases "map_of r ''value''")
    case None
    with JObj show ?thesis by (simp add: conforming_result_def)
  next
    case (Some x)
    show ?thesis
    proof (cases x)
      case v: (JObj v)
      show ?thesis
      proof (cases "map_of v ''choices''")
        case None
        with JObj Some v show ?thesis by (simp add: conforming_result_def)
      next
        case c: (Some y)
        with JObj Some v show ?thesis by (cases y) (simp_all add: conforming_result_def)
      qed
    qed (use JObj Some in \<open>simp_all add: conforming_result_def\<close>)
  qed
qed (simp_all add: conforming_result_def)

lemma conforming_annotation_iff:
  "conforming_annotation a \<longleftrightarrow>
     (\<exists>akvs. a = JObj akvs
        \<and> (map_of akvs ''result'' = None
           \<or> (\<exists>rs. map_of akvs ''result'' = Some (JArr rs) \<and> list_all conforming_result rs)))"
proof (cases a)
  case (JObj akvs)
  show ?thesis
  proof (cases "map_of akvs ''result''")
    case None
    with JObj show ?thesis by (simp add: conforming_annotation_def)
  next
    case (Some x)
    with JObj show ?thesis by (cases x) (simp_all add: conforming_annotation_def)
  qed
qed (simp_all add: conforming_annotation_def)

lemma conforming_item_present:
  assumes "map_of kvs ''data'' = Some d" and "map_of kvs ''annotations'' = Some a"
  shows "conforming_item (JObj kvs) \<longleftrightarrow>
     (\<exists>dk anns. d = JObj dk \<and> a = JArr anns \<and> list_all conforming_annotation anns)"
  using assms by (cases d; cases a) (simp_all add: conforming_item_def)

lemma choices_total:
  assumes "map_of r ''value'' = None
        \<or> (\<exists>v. map_of r ''value'' = Some (JObj v)
             \<and> (map_of v ''choices'' = None
                \<or> (\<exists>xs. map_of v ''choices'' = Some (JArr xs) \<and> list_all is_str xs)))"
  shows "\<exists>l. (case map_of r ''value'' of
        None \<Rightarrow> Inr lab
      | Some v \<Rightarrow>
          bindE (py_contains ''choices'' v) (\<lambda>c.
            if c then bindE (py_getitem v ''choices'') (\<lambda>ch.
                      bindE (py_join '', '' ch) (\<lambda>s. Inr (f s)))
            else Inr lab)) = Inr (l :: labels)"
  using assms
proof (elim disjE exE conjE)
  assume "map_of r ''value'' = None"
  then show ?thesis by simp
next
  fix v
  assume "map_of r ''value'' = Some (JObj v)" "map_of v ''choices'' = None"
  then show ?thesis by (simp add: py_contains_def)
next
  fix v xs
  assume a: "map_of r ''value'' = Some (JObj v)" "map_of v ''choices'' = Some (JArr xs)"
    "list_all is_str xs"
  from strs_of_total [OF a(3)] obtain ss where "strs_of xs = Inr ss" by blast
  with a show ?thesis
    by (simp add: py_contains_def py_getitem_def py_join_strs)
qed

lemma text_total:
  assumes "map_of r ''value'' = None \<or> (\<exists>v. map_of r ''value'' = Some (JObj v))"
  shows "\<exists>l. (case map_of r ''value'' of
        None \<Rightarrow> Inr lab
      | Some v \<Rightarrow>
          bindE (py_contains ''text'' v) (\<lambda>c.
            if c then bindE (py_getitem v ''text'') (\<lambda>t. Inr (f t))
            else Inr lab)) = Inr (l :: labels)"
  using assms
  by (auto simp: py_contains_def py_getitem_def)

lemma process_result_total:
  assumes "conforming_result result"
  shows "\<exists>l. process_result lab result = Inr l"
proof -
  from assms obtain r where r: "result = JObj r"
    and ch: "map_of r ''value'' = None
        \<or> (\<exists>v. map_of r ''value'' = Some (JObj v)
             \<and> (map_of v ''choices'' = None
                \<or> (\<exists>xs. map_of v ''choices'' = Some (JArr xs) \<and> list_all is_str xs)))"
    unfolding conforming_result_iff by blast
  from ch have tx: "map_of r ''value'' = None \<or> (\<exists>v. map_of r ''value'' = Some (JObj v))"
    by blast
  consider
      (iq) "from_name_of (JObj r) = JStr ''image_quality''"
    | (pq) "from_name_of (JObj r) = JStr ''pizza_quality''"
    | (pqr) "from_name_of (JObj r) = JStr ''pizza_quality_reason''"
    | (co) "from_name_of (JObj r) = JStr ''comments''"
    | (other) "from_name_of (JObj r) \<notin> JStr ` set recognized"
    by (auto simp: recognized_def)
  then show ?thesis
  proof cases
    case iq
    then have m: "map_of r ''from_name'' = Some (JStr ''image_quality'')"
      by (auto dest: from_name_ofD)
    show ?thesis
      unfolding r process_result_image_quality [OF m] by (rule choices_total [OF ch])
  next
    case pq
    then have m: "map_of r ''from_name'' = Some (JStr ''pizza_quality'')"
      by (auto dest: from_name_ofD)
    show ?thesis
      unfolding r process_result_pizza_quality [OF m] by (rule choices_total [OF ch])
  next
    case pqr
    then have m: "map_of r ''from_name'' = Some (JStr ''pizza_quality_reason'')"
      by (auto dest: from_name_ofD)
    show ?thesis
      unfolding r process_result_pizza_quality_reason [OF m] by (rule choices_total [OF ch])
  next
    case co
    then have m: "map_of r ''from_name'' = Some (JStr ''comments'')"
      by (auto dest: from_name_ofD)
    show ?thesis
      unfolding r process_result_comments [OF m] by (rule text_total [OF tx])
  next
    case other
    then show ?thesis
      by (simp add: r process_result_unrecognized)
  qed
qed

lemma process_results_total:
  "list_all conforming_result rs \<Longrightarrow> \<exists>l. process_results lab rs = Inr l"
proof (induction rs arbitrary: lab)
  case Nil
  then show ?case by simp
next
  case (Cons r rs)
  then obtain l where "process_result lab r = Inr l"
    using process_result_total [of r lab] by auto
  with Cons show ?case by simp
qed

lemma process_annotation_total:
  assumes "conforming_annotation a"
  shows "\<exists>l. process_annotation lab a = Inr l"
proof -
  from assms consider akvs where "a = JObj akvs" "map_of akvs ''result'' = None"
    | akvs rs where "a = JObj akvs" "map_of akvs ''result'' = Some (JArr rs)"
        "list_all conforming_result rs"
    unfolding conforming_annotation_iff by blast
  then show ?thesis
  proof cases
    case 1
    then show ?thesis
      by (simp add: process_annotation_def py_contains_def)
  next
    case 2
    with process_results_total [OF 2(3), of lab] show ?thesis
      by (simp add: process_annotation_def py_contains_def py_getitem_def py_iter_def)
  qed
qed

lemma process_annotations_total:
  "list_all conforming_annotation anns \<Longrightarrow> \<exists>l. process_annotations lab anns = Inr l"
proof (induction anns arbitrary: lab)
  case Nil
  then show ?case by simp
next
  case (Cons a anns)
  then obtain l where "process_annotation lab a = Inr l"
    using process_annotation_total [of a lab] by auto
  with Cons show ?case by simp
qed

lemma extract_item_total:
  assumes "conforming_item item"
  shows "\<exists>r. extract_item repr item = Inr r"
proof (cases item)
  case (JObj kvs)
  show ?thesis
  proof (cases "map_of kvs ''data'' = None \<or> map_of kvs ''annotations'' = None")
    case True
    then show ?thesis
      by (simp add: JObj extract_item_absent)
  next
    case False
    then obtain d a where d: "map_of kvs ''data'' = Some d"
      and a: "map_of kvs ''annotations'' = Some a"
      by auto
    from assms JObj obtain dk anns where dk: "d = JObj dk" and an: "a = JArr anns"
      and c: "list_all conforming_annotation anns"
      unfolding JObj conforming_item_present [OF d a] by blast
    from process_annotations_total [OF c, of default_labels]
    obtain l where l: "process_annotations default_labels anns = Inr l"
      by blast
    show ?thesis
      unfolding JObj extract_item_present [OF d a]
      using l
      by (cases "map_of dk ''image''")
        (simp_all add: dk an py_contains_def py_getitem_def py_truthy_def py_iter_def
          IMAGE_PREFIX_nonempty)
  qed
qed (simp_all add: extract_item_non_dict)

lemma extract_items_total:
  "list_all conforming_item records \<Longrightarrow> \<exists>out. extract_items repr records = Inr out"
proof (induction records)
  case Nil
  then show ?case by simp
next
  case (Cons item records)
  then obtain r where "extract_item repr item = Inr r"
    using extract_item_total [of item repr] by auto
  with Cons show ?case by auto
qed

text \<open>
  C10, amended. On a list of records of the shape of the data model the extractor
  returns. An annotation that is a mapping without \<^verbatim>\<open>result\<close> changes nothing; a result
  item that is a mapping without \<^verbatim>\<open>value\<close>, or with a recognized tag and a \<^verbatim>\<open>value\<close>
  mapping that lacks \<^verbatim>\<open>choices\<close> (categorical tags) or \<^verbatim>\<open>text\<close> (comments), changes
  nothing.
\<close>

theorem extractor_total_on_conforming:
  "(list_all conforming_item records \<longrightarrow>
      (\<exists>out. extract_annotation_data repr (JArr records) = Inr out))
 \<and> (map_of a ''result'' = None \<longrightarrow> process_annotation lab (JObj a) = Inr lab)
 \<and> (map_of r ''value'' = None \<longrightarrow> process_result lab (JObj r) = Inr lab)
 \<and> (map_of r ''from_name'' = Some (JStr tag)
      \<and> tag \<in> {''image_quality'', ''pizza_quality'', ''pizza_quality_reason''}
      \<and> map_of r ''value'' = Some (JObj v) \<and> map_of v ''choices'' = None \<longrightarrow>
      process_result lab (JObj r) = Inr lab)
 \<and> (map_of r ''from_name'' = Some (JStr ''comments'')
      \<and> map_of r ''value'' = Some (JObj v) \<and> map_of v ''text'' = None \<longrightarrow>
      process_result lab (JObj r) = Inr lab)"
proof (intro conjI impI)
  assume "list_all conforming_item records"
  then show "\<exists>out. extract_annotation_data repr (JArr records) = Inr out"
    by (simp add: extract_annotation_data_def py_iter_def extract_items_total)
next
  assume "map_of a ''result'' = None"
  then show "process_annotation lab (JObj a) = Inr lab"
    by (simp add: process_annotation_def py_contains_def)
next
  assume "map_of r ''value'' = None"
  then show "process_result lab (JObj r) = Inr lab"
    by (simp add: process_result_def tag_has_def Let_def)
next
  assume a: "map_of r ''from_name'' = Some (JStr tag)
      \<and> tag \<in> {''image_quality'', ''pizza_quality'', ''pizza_quality_reason''}
      \<and> map_of r ''value'' = Some (JObj v) \<and> map_of v ''choices'' = None"
  then consider "tag = ''image_quality''" | "tag = ''pizza_quality''"
    | "tag = ''pizza_quality_reason''"
    by blast
  then show "process_result lab (JObj r) = Inr lab"
  proof cases
    case 1
    with a show ?thesis by (simp add: process_result_image_quality py_contains_def)
  next
    case 2
    with a show ?thesis by (simp add: process_result_pizza_quality py_contains_def)
  next
    case 3
    with a show ?thesis by (simp add: process_result_pizza_quality_reason py_contains_def)
  qed
next
  assume "map_of r ''from_name'' = Some (JStr ''comments'')
      \<and> map_of r ''value'' = Some (JObj v) \<and> map_of v ''text'' = None"
  then show "process_result lab (JObj r) = Inr lab"
    by (simp add: process_result_comments py_contains_def)
qed

theorem extractor_total_on_conforming_witness:
  "list_all conforming_item
     [JObj [(''data'', JObj [(''image'', JStr ''a.jpg'')]),
            (''annotations'', JArr [JObj [(''id'', JInt 7)],
               JObj [(''result'', JArr [JObj [(''from_name'', JStr ''comments'')]])]])]]
 \<and> (\<exists>out. extract_annotation_data (\<lambda>v. [])
      (JArr [JObj [(''data'', JObj [(''image'', JStr ''a.jpg'')]),
            (''annotations'', JArr [JObj [(''id'', JInt 7)],
               JObj [(''result'', JArr [JObj [(''from_name'', JStr ''comments'')]])]])]]) = Inr out)
 \<and> process_annotation default_labels (JObj [(''id'', JInt 7)]) = Inr default_labels
 \<and> process_result default_labels (JObj [(''from_name'', JStr ''comments'')]) = Inr default_labels
 \<and> process_result default_labels
      (JObj [(''from_name'', JStr ''pizza_quality''), (''value'', JObj [])]) = Inr default_labels
 \<and> process_result default_labels
      (JObj [(''from_name'', JStr ''comments''), (''value'', JObj [])]) = Inr default_labels"
proof -
  have c: "list_all conforming_item
     [JObj [(''data'', JObj [(''image'', JStr ''a.jpg'')]),
            (''annotations'', JArr [JObj [(''id'', JInt 7)],
               JObj [(''result'', JArr [JObj [(''from_name'', JStr ''comments'')]])]])]]"
    by (simp add: conforming_item_def conforming_annotation_def conforming_result_def)
  show ?thesis
    using c
      extractor_total_on_conforming [of
        "[JObj [(''data'', JObj [(''image'', JStr ''a.jpg'')]),
            (''annotations'', JArr [JObj [(''id'', JInt 7)],
               JObj [(''result'', JArr [JObj [(''from_name'', JStr ''comments'')]])]])]]"
        "\<lambda>v. []" "[(''id'', JInt 7)]" default_labels "[(''from_name'', JStr ''comments'')]"
        "''comments''" "[]"]
      extractor_total_on_conforming [of "[]" "\<lambda>v. []" "[]" default_labels
        "[(''from_name'', JStr ''pizza_quality''), (''value'', JObj [])]" "''pizza_quality''" "[]"]
      extractor_total_on_conforming [of "[]" "\<lambda>v. []" "[]" default_labels
        "[(''from_name'', JStr ''comments''), (''value'', JObj [])]" "''comments''" "[]"]
    by simp
qed

section \<open>Image Locator: the walk\<close>



lemma process_file_other:
  "\<not> py_endswith (py_lower file) image_exts
     \<Longrightarrow> process_file copy2 target_dir image_names root st file = st"
  by (simp add: process_file_def)















end
